theory Spec2Isabelle
  imports Main "HOL-Library.AList"
begin

section \<open>ECMAScript time values\<close>

text \<open>
  \<^verbatim>\<open>src/models/letter.js\<close> computes with the built-in \<^verbatim>\<open>Date\<close>. A valid Date holds a
  time value: an integral number of milliseconds since 1970-01-01T00:00:00Z, of absolute
  value at most \<open>8.64 * 10^15\<close>. All numbers met below are integers below \<open>2^53\<close>, where
  double arithmetic is exact, so a number is an \<open>int\<close> and NaN is \<open>None\<close>.
  The functions follow ECMA-262, section "Time Values and Time Range" and following.
\<close>

definition msPerDay :: int where
  "msPerDay = 86400000"

definition valid_time :: "int \<Rightarrow> bool" where
  "valid_time t = (\<bar>t\<bar> \<le> 8640000000000000)"

definition Day :: "int \<Rightarrow> int" where
  "Day t = t div msPerDay"

definition DaysInYear :: "int \<Rightarrow> int" where
  "DaysInYear y =
     (if y mod 4 \<noteq> 0 then 365
      else if y mod 100 \<noteq> 0 then 366
      else if y mod 400 \<noteq> 0 then 365
      else 366)"

definition DayFromYear :: "int \<Rightarrow> int" where
  "DayFromYear y =
     365 * (y - 1970) + (y - 1969) div 4 - (y - 1901) div 100 + (y - 1601) div 400"

definition TimeFromYear :: "int \<Rightarrow> int" where
  "TimeFromYear y = msPerDay * DayFromYear y"

text \<open>
  ECMA-262 specifies \<open>YearFromTime t\<close> as the largest year \<open>y\<close> with
  \<open>TimeFromYear y \<le> t\<close>. The executable form estimates the year from the mean length
  of a Gregorian year (146097 days in 400 years) and corrects the estimate by one;
  \<open>YearFromTime_lower\<close>, \<open>YearFromTime_upper\<close> and \<open>YearFromTime_largest\<close> below
  show that it is the year of the specification.
\<close>

definition YearFromTime :: "int \<Rightarrow> int" where
  "YearFromTime t =
     (let d = Day t; y0 = 1970 + (400 * d) div 146097
      in if DayFromYear (y0 + 1) \<le> d then y0 + 1
         else if DayFromYear y0 \<le> d then y0
         else y0 - 1)"

definition InLeapYear :: "int \<Rightarrow> int" where
  "InLeapYear t = (if DaysInYear (YearFromTime t) = 366 then 1 else 0)"

definition DayWithinYear :: "int \<Rightarrow> int" where
  "DayWithinYear t = Day t - DayFromYear (YearFromTime t)"

definition MonthFromTime :: "int \<Rightarrow> int" where
  "MonthFromTime t =
     (let d = DayWithinYear t; l = InLeapYear t
      in if d < 31 then 0
         else if d < 59 + l then 1
         else if d < 90 + l then 2
         else if d < 120 + l then 3
         else if d < 151 + l then 4
         else if d < 181 + l then 5
         else if d < 212 + l then 6
         else if d < 243 + l then 7
         else if d < 273 + l then 8
         else if d < 304 + l then 9
         else if d < 334 + l then 10
         else 11)"

definition DateFromTime :: "int \<Rightarrow> int" where
  "DateFromTime t =
     (let d = DayWithinYear t; l = InLeapYear t; m = MonthFromTime t
      in if m = 0 then d + 1
         else if m = 1 then d - 30
         else if m = 2 then d - 58 - l
         else if m = 3 then d - 89 - l
         else if m = 4 then d - 119 - l
         else if m = 5 then d - 150 - l
         else if m = 6 then d - 180 - l
         else if m = 7 then d - 211 - l
         else if m = 8 then d - 242 - l
         else if m = 9 then d - 272 - l
         else if m = 10 then d - 303 - l
         else d - 333 - l)"

text \<open>
  \<open>MakeDay year month date\<close>: with \<open>ym = year + floor (month / 12)\<close> and
  \<open>mn = month mod 12\<close>, ECMA-262 takes the time value \<open>t\<close> of the first day of month
  \<open>mn\<close> of year \<open>ym\<close> and returns \<open>Day t + date - 1\<close>. \<open>DaysBeforeMonth\<close> is the
  number of days of year \<open>ym\<close> before that first day; \<open>MakeDay_first_day\<close> below shows
  that the time value so obtained has the year, the month and the date 1 that ECMA-262
  asks for.
\<close>

definition DaysBeforeMonth :: "int \<Rightarrow> int \<Rightarrow> int" where
  "DaysBeforeMonth ym mn =
     (let l = (if DaysInYear ym = 366 then 1 else 0)
      in if mn = 0 then 0
         else if mn = 1 then 31
         else if mn = 2 then 59 + l
         else if mn = 3 then 90 + l
         else if mn = 4 then 120 + l
         else if mn = 5 then 151 + l
         else if mn = 6 then 181 + l
         else if mn = 7 then 212 + l
         else if mn = 8 then 243 + l
         else if mn = 9 then 273 + l
         else if mn = 10 then 304 + l
         else 334 + l)"

definition MakeDay :: "int \<Rightarrow> int \<Rightarrow> int \<Rightarrow> int" where
  "MakeDay year month date =
     (let ym = year + month div 12; mn = month mod 12
      in DayFromYear ym + DaysBeforeMonth ym mn + date - 1)"

definition MakeDate :: "int \<Rightarrow> int \<Rightarrow> int" where
  "MakeDate day time = day * msPerDay + time"

definition TimeClip :: "int \<Rightarrow> int option" where
  "TimeClip time = (if \<bar>time\<bar> > 8640000000000000 then None else Some time)"

text \<open>
  \<^verbatim>\<open>Date.UTC(year, month, date)\<close>: a year from 0 to 99 stands for 1900 + year
  (ECMA-262, MakeFullYear); hours, minutes, seconds and milliseconds default to 0.
\<close>

definition MakeFullYear :: "int \<Rightarrow> int" where
  "MakeFullYear y = (if 0 \<le> y \<and> y \<le> 99 then 1900 + y else y)"

definition Date_UTC :: "int \<Rightarrow> int \<Rightarrow> int \<Rightarrow> int option" where
  "Date_UTC year month date = TimeClip (MakeDate (MakeDay (MakeFullYear year) month date) 0)"

text \<open>The getters of a valid Date with time value \<open>t\<close>.\<close>

definition getUTCFullYear :: "int \<Rightarrow> int" where
  "getUTCFullYear t = YearFromTime t"

definition getUTCMonth :: "int \<Rightarrow> int" where
  "getUTCMonth t = MonthFromTime t"

definition getUTCDate :: "int \<Rightarrow> int" where
  "getUTCDate t = DateFromTime t"

text \<open>\<^verbatim>\<open>a + b\<close> and \<^verbatim>\<open>a >= b\<close> on numbers: NaN is absorbing, and no comparison with NaN holds.\<close>

definition num_add :: "int option \<Rightarrow> int option \<Rightarrow> int option" where
  "num_add a b = (case (a, b) of (Some x, Some y) \<Rightarrow> Some (x + y) | _ \<Rightarrow> None)"

definition num_ge :: "int option \<Rightarrow> int option \<Rightarrow> bool" where
  "num_ge a b = (case (a, b) of (Some x, Some y) \<Rightarrow> x \<ge> y | _ \<Rightarrow> False)"

section \<open>The deliveredAt validator of the letter schema\<close>

text \<open>
  The validator runs as a method of the document being validated. Of the document it
  reads \<^verbatim>\<open>this.isNew\<close> and calls \<^verbatim>\<open>this.isModified('deliveredAt')\<close>; the current time
  \<^verbatim>\<open>new Date()\<close> is the parameter \<open>now\<close>, and \<open>value\<close> is the time value of the date
  under validation.
\<close>

record document =
  isNew :: bool
  isModified :: "string \<Rightarrow> bool"

definition validator :: "document \<Rightarrow> int \<Rightarrow> int \<Rightarrow> bool" where
  "validator this value now =
     (let isNewLetter = isNew this;
          isRescheduling = isModified this ''deliveredAt''
      in if isNewLetter \<or> isRescheduling then
           (let today = now;
                todayAtMidnightUTC =
                  Date_UTC (getUTCFullYear today) (getUTCMonth today) (getUTCDate today);
                sevenDaysInMilliseconds = 7 * 24 * 60 * 60 * 1000;
                minimumDeliveryDateMs = num_add todayAtMidnightUTC (Some sevenDaysInMilliseconds);
                chosenDate = value;
                chosenDateAtMidnightUTC =
                  Date_UTC (getUTCFullYear chosenDate) (getUTCMonth chosenDate)
                    (getUTCDate chosenDate);
                isDateFarEnoughInFuture = num_ge chosenDateAtMidnightUTC minimumDeliveryDateMs
            in isDateFarEnoughInFuture)
         else True)"

definition deliveredAt_message :: string where
  "deliveredAt_message = ''Delivery date must be at least one week in the future.''"

text \<open>
  Mongoose reports a validator that returned false as a validation failure of the path
  carrying the schema's \<^verbatim>\<open>message\<close>; \<open>None\<close> is a passed validation.
\<close>

definition deliveredAt_validate :: "document \<Rightarrow> int \<Rightarrow> int \<Rightarrow> string option" where
  "deliveredAt_validate this value now =
     (if validator this value now then None else Some deliveredAt_message)"

text \<open>The specification's truncation of a time value to UTC midnight.\<close>

definition UTCmidnight :: "int \<Rightarrow> int" where
  "UTCmidnight t = t - t mod msPerDay"

section \<open>JavaScript values\<close>

text \<open>
  \<^verbatim>\<open>src/middleware/errorHandler.js\<close> inspects a failure of any shape, so a failure is a
  dynamically typed value: \<^verbatim>\<open>undefined\<close>, \<^verbatim>\<open>null\<close>, a boolean, an integral number, a
  string (the list of its code units), or a plain object with its properties in creation
  order. A property list stands for an object whose keys are distinct; a read sees the
  data properties an instance inherits (\<^verbatim>\<open>name\<close> and \<^verbatim>\<open>message\<close> of an \<^verbatim>\<open>Error\<close>) among
  them. Functions, arrays, symbols, NaN, fractions, accessors of the failure's own and
  proxies are not modelled, nor are the methods that every value inherits: the handler
  reads none of them.
\<close>

datatype jsval =
    Undefined
  | Null
  | Bool bool
  | Num int
  | Str string
  | Obj "(string \<times> jsval) list"

datatype exception = TypeError

fun truthy :: "jsval \<Rightarrow> bool" where
  "truthy Undefined = False"
| "truthy Null = False"
| "truthy (Bool b) = b"
| "truthy (Num n) = (n \<noteq> 0)"
| "truthy (Str s) = (s \<noteq> [])"
| "truthy (Obj ps) = True"

fun nullish :: "jsval \<Rightarrow> bool" where
  "nullish Undefined = True"
| "nullish Null = True"
| "nullish v = False"

text \<open>Decimal numerals: the key of index \<open>n\<close> of a string, and its value read back.\<close>

definition digit_char :: "nat \<Rightarrow> char" where
  "digit_char n = char_of (48 + n)"

function index_key :: "nat \<Rightarrow> string" where
  "index_key n = (if n < 10 then [digit_char n] else index_key (n div 10) @ [digit_char (n mod 10)])"
  by pat_completeness auto
termination
  by (relation "measure id") auto

definition is_digit :: "char \<Rightarrow> bool" where
  "is_digit c = (48 \<le> (of_char c :: nat) \<and> (of_char c :: nat) \<le> 57)"

definition digit_val :: "char \<Rightarrow> nat" where
  "digit_val c = of_char c - 48"

definition parse_nat :: "string \<Rightarrow> nat" where
  "parse_nat s = foldl (\<lambda>n c. 10 * n + digit_val c) 0 s"

text \<open>
  An array index is a canonical numeric string of value at most \<open>2^32 - 2\<close>. The own
  keys of an object come in the order of ECMA-262's OrdinaryOwnPropertyKeys: array
  indices in ascending numeric order, then the other strings in creation order.
\<close>

definition is_array_index :: "string \<Rightarrow> bool" where
  "is_array_index s =
     (s \<noteq> [] \<and> list_all is_digit s \<and> (if hd s = CHR ''0'' then length s = 1 else True) \<and>
      parse_nat s < 4294967295)"

definition ordered_keys :: "string list \<Rightarrow> string list" where
  "ordered_keys ks =
     sort_key parse_nat (filter is_array_index ks) @ filter (\<lambda>k. \<not> is_array_index k) ks"

text \<open>
  \<^verbatim>\<open>o[k]\<close> and \<^verbatim>\<open>o.k\<close> for \<open>o\<close> other than \<^verbatim>\<open>undefined\<close> and \<^verbatim>\<open>null\<close>, on which the read
  throws a TypeError: where \<open>o\<close> may be one of the two, the caller tests \<open>nullish o\<close>
  first. A string has its length and its characters.
\<close>

fun lookup :: "jsval \<Rightarrow> string \<Rightarrow> jsval" where
  "lookup (Obj ps) k = (case map_of ps k of Some v \<Rightarrow> v | None \<Rightarrow> Undefined)"
| "lookup (Str s) k =
     (if k = ''length'' then Num (int (length s))
      else case find (\<lambda>i. index_key i = k) [0..<length s] of
             Some i \<Rightarrow> Str [s ! i]
           | None \<Rightarrow> Undefined)"
| "lookup v k = Undefined"

fun Object_keys :: "jsval \<Rightarrow> exception + string list" where
  "Object_keys Undefined = Inl TypeError"
| "Object_keys Null = Inl TypeError"
| "Object_keys (Str s) = Inr (map index_key [0..<length s])"
| "Object_keys (Obj ps) = Inr (ordered_keys (map fst ps))"
| "Object_keys v = Inr []"

text \<open>\<^verbatim>\<open>Object.values\<close> of the object with property list \<open>ps\<close>.\<close>

definition Object_values :: "(string \<times> jsval) list \<Rightarrow> jsval list" where
  "Object_values ps = map (lookup (Obj ps)) (ordered_keys (map fst ps))"

text \<open>
  \<^verbatim>\<open>o[k] = v\<close> on an object that the program builds, given as its prototype and its own
  properties: an existing property keeps its place and a new one comes last. The key
  \<^verbatim>\<open>__proto__\<close> is special as long as the object has no own property of that name and
  inherits the accessor of \<^verbatim>\<open>Object.prototype\<close> (its prototype is neither \<^verbatim>\<open>null\<close> nor an
  object with a property \<^verbatim>\<open>__proto__\<close> of its own): the assignment then creates no
  property, and replaces the prototype when the value is an object or \<^verbatim>\<open>null\<close>.
\<close>

datatype prototype = ObjectPrototype | NullPrototype | PlainObject "(string \<times> jsval) list"

definition inherits_accessor :: "prototype \<Rightarrow> bool" where
  "inherits_accessor pr =
     (case pr of
        ObjectPrototype \<Rightarrow> True
      | NullPrototype \<Rightarrow> False
      | PlainObject ps \<Rightarrow> ''__proto__'' \<notin> set (map fst ps))"

definition assign ::
  "prototype \<times> (string \<times> jsval) list \<Rightarrow> string \<Rightarrow> jsval \<Rightarrow>
   prototype \<times> (string \<times> jsval) list" where
  "assign obj k v =
     (if k = ''__proto__'' \<and> ''__proto__'' \<notin> set (map fst (snd obj)) \<and> inherits_accessor (fst obj)
      then (case v of
              Obj ps \<Rightarrow> (PlainObject ps, snd obj)
            | Null \<Rightarrow> (NullPrototype, snd obj)
            | _ \<Rightarrow> obj)
      else (fst obj, AList.update k v (snd obj)))"

text \<open>
  ToString, as a template literal and a computed property key apply it (to a string or
  to \<^verbatim>\<open>undefined\<close> in the handler; a number is written in decimal notation, as integers
  below \<open>10^21\<close> are).
\<close>

fun ToString :: "jsval \<Rightarrow> string" where
  "ToString Undefined = ''undefined''"
| "ToString Null = ''null''"
| "ToString (Bool b) = (if b then ''true'' else ''false'')"
| "ToString (Num n) = (if n < 0 then CHR ''-'' # index_key (nat (- n)) else index_key (nat n))"
| "ToString (Str s) = s"
| "ToString (Obj ps) = ''[object Object]''"

text \<open>\<^verbatim>\<open>s.split('.')\<close>\<close>

fun split_dot :: "string \<Rightarrow> string list" where
  "split_dot [] = [[]]"
| "split_dot (c # cs) =
     (if c = CHR ''.'' then [] # split_dot cs
      else (case split_dot cs of [] \<Rightarrow> [[c]] | w # ws \<Rightarrow> (c # w) # ws))"

section \<open>The error classes\<close>

text \<open>
  An instance is the object its constructor builds: \<^verbatim>\<open>name\<close> is inherited from
  \<^verbatim>\<open>Error.prototype\<close> (no class sets it, so it reads \<^verbatim>\<open>'Error'\<close>), \<^verbatim>\<open>message\<close> comes from
  \<^verbatim>\<open>super(message)\<close> and \<^verbatim>\<open>stack\<close> is the trace the engine captures, a parameter here.
  An optional argument is \<open>None\<close> where the caller leaves it out. \<open>AppError\<close> gives the
  properties that the constructor of the base class sets; an instance of the base class
  is the object of these properties, and the constructor of a subclass adds its own.
\<close>

definition AppError :: "string \<Rightarrow> int option \<Rightarrow> string \<Rightarrow> (string \<times> jsval) list" where
  "AppError msg statusCode trace =
     [(''name'', Str ''Error''),
      (''message'', Str msg),
      (''stack'', Str trace),
      (''statusCode'', Num (case statusCode of None \<Rightarrow> 400 | Some c \<Rightarrow> c)),
      (''isOperational'', Bool True)]"

definition ValidationError :: "string \<Rightarrow> jsval option \<Rightarrow> string \<Rightarrow> jsval" where
  "ValidationError msg fieldErrors trace =
     Obj (AppError msg (Some 400) trace @
       [(''code'', Str ''VALIDATION_ERROR''),
        (''fields'', (case fieldErrors of None \<Rightarrow> Null | Some f \<Rightarrow> f))])"

definition NotFoundError :: "string option \<Rightarrow> string \<Rightarrow> jsval" where
  "NotFoundError msg trace =
     Obj (AppError (case msg of None \<Rightarrow> ''Resource not found'' | Some m \<Rightarrow> m) (Some 404) trace @
       [(''code'', Str ''NOT_FOUND'')])"

definition ForbiddenError :: "string option \<Rightarrow> string \<Rightarrow> jsval" where
  "ForbiddenError msg trace =
     Obj (AppError
        (case msg of None \<Rightarrow> ''You do not have permission to perform this action'' | Some m \<Rightarrow> m)
        (Some 403) trace @
       [(''code'', Str ''FORBIDDEN'')])"

definition UnauthorizedError :: "string option \<Rightarrow> string \<Rightarrow> jsval" where
  "UnauthorizedError msg trace =
     Obj (AppError (case msg of None \<Rightarrow> ''Authentication required'' | Some m \<Rightarrow> m) (Some 401) trace @
       [(''code'', Str ''UNAUTHORIZED'')])"

definition AIServiceError :: "string option \<Rightarrow> jsval option \<Rightarrow> string \<Rightarrow> jsval" where
  "AIServiceError msg originalError trace =
     (let original = (case originalError of None \<Rightarrow> Null | Some e \<Rightarrow> e)
      in Obj (AppError (case msg of None \<Rightarrow> ''AI service encountered an error'' | Some m \<Rightarrow> m)
                (Some 503) trace @
              [(''code'', Str ''AI_SERVICE_ERROR''), (''originalError'', original)] @
              (if truthy original
               then [(''providerStatus'', lookup original ''status''),
                     (''providerMessage'', lookup original ''message'')]
               else [])))"

section \<open>The error handler\<close>

text \<open>
  \<^verbatim>\<open>fullPath.includes('.') ? fullPath.split('.').pop() : fullPath\<close>, the name under which
  \<^verbatim>\<open>extractMongooseErrors\<close> files the message of a path.
\<close>

definition leaf :: "string \<Rightarrow> string" where
  "leaf fullPath = (if CHR ''.'' \<in> set fullPath then last (split_dot fullPath) else fullPath)"

text \<open>
  \<open>extract_step\<close> is the body of the \<^verbatim>\<open>forEach\<close> callback of \<^verbatim>\<open>extractMongooseErrors\<close>,
  with the object \<^verbatim>\<open>fieldErrors\<close> built so far as its state. \<^verbatim>\<open>fullPath.includes\<close> is a
  call of a string method: on anything but a string it throws a TypeError, as the read
  of \<^verbatim>\<open>path\<close> does on an entry that is \<^verbatim>\<open>undefined\<close> or \<^verbatim>\<open>null\<close>. The callers of
  \<^verbatim>\<open>extractMongooseErrors\<close> read the own properties of the object it returns
  (\<^verbatim>\<open>Object.values\<close>, the JSON of the response), so these are its result.
\<close>

definition extract_step ::
  "jsval \<Rightarrow> exception + prototype \<times> (string \<times> jsval) list \<Rightarrow> string \<Rightarrow>
   exception + prototype \<times> (string \<times> jsval) list" where
  "extract_step errors acc errorKey =
     (case acc of
        Inl e \<Rightarrow> Inl e
      | Inr fieldErrors \<Rightarrow>
          (let entry = lookup errors errorKey
           in if nullish entry then Inl TypeError
              else (case lookup entry ''path'' of
                      Str fullPath \<Rightarrow>
                        (let fieldName = leaf fullPath
                         in Inr (assign fieldErrors fieldName (lookup entry ''message'')))
                    | _ \<Rightarrow> Inl TypeError)))"

definition extractMongooseErrors :: "jsval \<Rightarrow> exception + (string \<times> jsval) list" where
  "extractMongooseErrors mongooseError =
     (if nullish mongooseError then Inl TypeError
      else if truthy (lookup mongooseError ''errors'') then
        (case Object_keys (lookup mongooseError ''errors'') of
           Inl e \<Rightarrow> Inl e
         | Inr keys \<Rightarrow>
             map_sum id snd
               (foldl (extract_step (lookup mongooseError ''errors'')) (Inr (ObjectPrototype, []))
                  keys))
      else Inr [])"

definition getFirstErrorMessage :: "(string \<times> jsval) list \<Rightarrow> jsval" where
  "getFirstErrorMessage fieldErrors =
     (let errorMessages = Object_values fieldErrors
      in if length errorMessages > 0 then hd errorMessages else Str ''Validation failed'')"

text \<open>
  What the handler hands to \<^verbatim>\<open>response.status(...).json(...)\<close>. The five branches of
  the handler are the five functions below, in the order of the source.
\<close>

record response =
  status :: jsval
  body :: jsval

definition validationResponse :: "jsval \<Rightarrow> exception + response" where
  "validationResponse error =
     (case extractMongooseErrors error of
        Inl e \<Rightarrow> Inl e
      | Inr fieldErrors \<Rightarrow>
          (let summaryMessage = getFirstErrorMessage fieldErrors
           in Inr \<lparr>status = Num 400,
                   body = Obj [(''success'', Bool False),
                               (''error'', Obj [(''code'', Str ''VALIDATION_ERROR''),
                                                (''message'', summaryMessage),
                                                (''fields'', Obj fieldErrors)])]\<rparr>))"

definition castResponse :: "exception + response" where
  "castResponse =
     Inr \<lparr>status = Num 400,
          body = Obj [(''success'', Bool False),
                      (''error'', Obj [(''code'', Str ''INVALID_ID''),
                                       (''message'', Str ''Invalid ID format'')])]\<rparr>"

definition duplicateResponse :: "jsval \<Rightarrow> exception + response" where
  "duplicateResponse error =
     (case Object_keys (lookup error ''keyValue'') of
        Inl e \<Rightarrow> Inl e
      | Inr keys \<Rightarrow>
          (let duplicateField = (case keys of [] \<Rightarrow> Undefined | k # ks \<Rightarrow> Str k)
           in Inr \<lparr>status = Num 400,
                   body = Obj [(''success'', Bool False),
                               (''error'', Obj [(''code'', Str ''DUPLICATE_ERROR''),
                                                (''message'',
                                                   Str (''A record with this '' @
                                                        ToString duplicateField @
                                                        '' already exists'')),
                                                (''fields'',
                                                   Obj [(ToString duplicateField,
                                                         Str (''This '' @ ToString duplicateField @
                                                              '' is already in use''))])])]\<rparr>))"

definition operationalResponse :: "jsval \<Rightarrow> exception + response" where
  "operationalResponse error =
     Inr \<lparr>status = lookup error ''statusCode'',
          body = Obj [(''success'', Bool False),
                      (''error'',
                         Obj ([(''code'', (if truthy (lookup error ''code'') then lookup error ''code''
                                           else Str ''ERROR'')),
                               (''message'', lookup error ''message'')] @
                              (if truthy (lookup error ''fields'')
                               then [(''fields'', lookup error ''fields'')] else [])))]\<rparr>"

definition internalResponse :: "jsval \<Rightarrow> bool \<Rightarrow> exception + response" where
  "internalResponse error isDevelopment =
     Inr \<lparr>status = Num 500,
          body = Obj [(''success'', Bool False),
                      (''error'',
                         Obj ([(''code'', Str ''INTERNAL_ERROR''),
                               (''message'', (if isDevelopment then lookup error ''message''
                                              else Str ''An unexpected error occurred''))] @
                              (if isDevelopment then [(''stack'', lookup error ''stack'')] else [])))]\<rparr>"

text \<open>
  \<open>NODE_ENV\<close> is \<^verbatim>\<open>process.env.NODE_ENV\<close>, a string or absent. The handler first logs
  \<^verbatim>\<open>error.message\<close>, a read that throws on \<^verbatim>\<open>undefined\<close> and \<^verbatim>\<open>null\<close>; the log itself is
  not part of the result.
\<close>

definition errorHandler :: "jsval \<Rightarrow> string option \<Rightarrow> exception + response" where
  "errorHandler error NODE_ENV =
     (if nullish error then Inl TypeError
      else
        (let isDevelopment = (NODE_ENV = Some ''development'')
         in if lookup error ''name'' = Str ''ValidationError'' \<and> truthy (lookup error ''errors'')
            then validationResponse error
            else if lookup error ''name'' = Str ''CastError'' then castResponse
            else if lookup error ''code'' = Num 11000 then duplicateResponse error
            else if truthy (lookup error ''isOperational'') then operationalResponse error
            else internalResponse error isDevelopment))"

text \<open>
  The four tests of the handler, by the shape they recognise, and the parts of a
  response that the properties below speak about.
\<close>

definition isStorageValidation :: "jsval \<Rightarrow> bool" where
  "isStorageValidation error =
     (lookup error ''name'' = Str ''ValidationError'' \<and> truthy (lookup error ''errors''))"

definition isStorageCast :: "jsval \<Rightarrow> bool" where
  "isStorageCast error = (lookup error ''name'' = Str ''CastError'')"

definition isDuplicateKey :: "jsval \<Rightarrow> bool" where
  "isDuplicateKey error = (lookup error ''code'' = Num 11000)"

definition isOperational :: "jsval \<Rightarrow> bool" where
  "isOperational error = truthy (lookup error ''isOperational'')"

definition unclassified :: "jsval \<Rightarrow> bool" where
  "unclassified error =
     (\<not> nullish error \<and> \<not> isStorageValidation error \<and> \<not> isStorageCast error \<and>
      \<not> isDuplicateKey error \<and> \<not> isOperational error)"

definition has_own :: "jsval \<Rightarrow> string \<Rightarrow> bool" where
  "has_own v k = (case v of Obj ps \<Rightarrow> k \<in> set (map fst ps) | _ \<Rightarrow> False)"

definition error_of :: "response \<Rightarrow> jsval" where
  "error_of r = lookup (body r) ''error''"

definition code_of :: "response \<Rightarrow> jsval" where
  "code_of r = lookup (error_of r) ''code''"

text \<open>
  An entry of the \<^verbatim>\<open>errors\<close> collection of a storage validation failure is an object
  with a string \<^verbatim>\<open>path\<close>; \<open>leaf_of\<close> is the field name it is filed under.
\<close>

definition is_field_error :: "jsval \<Rightarrow> bool" where
  "is_field_error entry = (case lookup entry ''path'' of Str p \<Rightarrow> True | _ \<Rightarrow> False)"

definition leaf_of :: "jsval \<Rightarrow> string" where
  "leaf_of entry = (case lookup entry ''path'' of Str p \<Rightarrow> leaf p | _ \<Rightarrow> [])"

section \<open>The async handler\<close>

text \<open>
  A call of a route handler either throws, or returns a value that is no promise, or
  returns a promise, which is fulfilled, is rejected, or stays pending.
  \<^verbatim>\<open>Promise.resolve(p)\<close> is \<open>p\<close> itself for a promise and a fulfilled promise for any
  other value, and \<^verbatim>\<open>.catch(next)\<close> calls \<^verbatim>\<open>next\<close> with the reason when the promise is
  rejected. The argument \<^verbatim>\<open>routeHandler(request, response, next)\<close> is evaluated before
  \<^verbatim>\<open>Promise.resolve\<close> is entered. The run of the wrapper records the exception that leaves
  it, if any, and the calls of \<^verbatim>\<open>next\<close> made through \<^verbatim>\<open>.catch(next)\<close>; what the handler
  itself does with \<^verbatim>\<open>next\<close> is its own. Objects with a \<^verbatim>\<open>then\<close> method that are no
  promises are not modelled.
\<close>

datatype settlement = Fulfilled jsval | Rejected jsval | Pending

datatype completion = Throws jsval | Returns jsval | ReturnsPromise settlement

record run =
  escaped :: "jsval option"
  forwarded :: "jsval list"

definition asyncHandler :: "('req \<Rightarrow> 'res \<Rightarrow> completion) \<Rightarrow> 'req \<Rightarrow> 'res \<Rightarrow> run" where
  "asyncHandler routeHandler request response =
     (case routeHandler request response of
        Throws e \<Rightarrow> \<lparr>escaped = Some e, forwarded = []\<rparr>
      | Returns v \<Rightarrow> \<lparr>escaped = None, forwarded = []\<rparr>
      | ReturnsPromise (Fulfilled v) \<Rightarrow> \<lparr>escaped = None, forwarded = []\<rparr>
      | ReturnsPromise (Rejected e) \<Rightarrow> \<lparr>escaped = None, forwarded = [e]\<rparr>
      | ReturnsPromise Pending \<Rightarrow> \<lparr>escaped = None, forwarded = []\<rparr>)"

section \<open>Calendar arithmetic\<close>

lemma div_bounds:
  fixes x k :: int
  assumes "0 < k"
  shows "k * (x div k) \<le> x" and "x < k * (x div k) + k"
proof -
  have "x = k * (x div k) + x mod k" by simp
  moreover have "0 \<le> x mod k" "x mod k < k" using assms by simp_all
  ultimately show "k * (x div k) \<le> x" and "x < k * (x div k) + k" by linarith+
qed

lemma DayFromYear_linear:
  "DayFromYear y = 365 * y - 719050 + (y - 1969) div 4 - (y - 1901) div 100 + (y - 1601) div 400"
  by (simp add: DayFromYear_def algebra_simps)

lemma DayFromYear_estimate_lower:
  fixes d :: int
  shows "DayFromYear (1969 + (400 * d) div 146097) \<le> d"
proof -
  define q where "q = (400 * d) div 146097"
  define a where "a = (q div 4)"
  define b where "b = (68 + q) div 100"
  define c where "c = (368 + q) div 400"
  have q: "146097 * q \<le> 400 * d"
    unfolding q_def by (rule div_bounds) simp
  have a: "4 * a \<le> q" unfolding a_def by (rule div_bounds) simp
  have b: "68 + q < 100 * b + 100" unfolding b_def by (rule div_bounds) simp
  have c: "400 * c \<le> 368 + q" unfolding c_def by (rule div_bounds) simp
  have "DayFromYear (1969 + q) = 365 * q - 365 + a - b + c"
    by (simp add: DayFromYear_linear a_def b_def c_def)
  moreover have "365 * q - 365 + a - b + c \<le> d"
    using q a b c by linarith
  ultimately show ?thesis by (simp add: q_def)
qed

lemma DayFromYear_estimate_upper:
  fixes d :: int
  shows "d < DayFromYear (1972 + (400 * d) div 146097)"
proof -
  define q where "q = (400 * d) div 146097"
  define a where "a = (3 + q) div 4"
  define b where "b = (71 + q) div 100"
  define c where "c = (371 + q) div 400"
  have q: "400 * d < 146097 * q + 146097"
    unfolding q_def by (rule div_bounds) simp
  have a: "3 + q < 4 * a + 4" unfolding a_def by (rule div_bounds) simp
  have b: "100 * b \<le> 71 + q" unfolding b_def by (rule div_bounds) simp
  have c: "371 + q < 400 * c + 400" unfolding c_def by (rule div_bounds) simp
  have "DayFromYear (1972 + q) = 365 * q + 730 + a - b + c"
    by (simp add: DayFromYear_linear a_def b_def c_def)
  moreover have "d < 365 * q + 730 + a - b + c"
    using q a b c by linarith
  ultimately show ?thesis by (simp add: q_def)
qed

lemma YearFromTime_lower: "DayFromYear (YearFromTime t) \<le> Day t"
  using DayFromYear_estimate_lower [of "Day t"]
  by (simp add: YearFromTime_def Let_def)

lemma YearFromTime_upper: "Day t < DayFromYear (YearFromTime t + 1)"
  using DayFromYear_estimate_upper [of "Day t"]
  by (simp add: YearFromTime_def Let_def add.commute add.left_commute)

lemma div_next:
  fixes x k :: int
  assumes "0 < k"
  shows "(x + 1) div k = x div k + (if (x + 1) mod k = 0 then 1 else 0)"
proof (cases "x mod k + 1 = k")
  case True
  have "x = k * (x div k) + x mod k"
    by simp
  with True have "x + 1 = k * (x div k) + k"
    by linarith
  then have "x + 1 = k * (x div k + 1) + 0"
    by (simp add: algebra_simps)
  then have "(x + 1) div k = x div k + 1" "(x + 1) mod k = 0"
    using assms int_div_pos_eq [of "x + 1" k "x div k + 1" 0]
      int_mod_pos_eq [of "x + 1" k "x div k + 1" 0] by simp_all
  then show ?thesis by simp
next
  case False
  have r: "0 \<le> x mod k + 1" "x mod k + 1 < k"
    using assms False pos_mod_bound [of k x] pos_mod_sign [of k x] by linarith+
  have e: "x + 1 = k * (x div k) + (x mod k + 1)"
    by simp
  have "(x + 1) div k = x div k" "(x + 1) mod k = x mod k + 1"
    using int_div_pos_eq [OF e r] int_mod_pos_eq [OF e r] by simp_all
  moreover have "x mod k + 1 \<noteq> 0"
    using assms pos_mod_sign [of k x] by linarith
  ultimately show ?thesis by simp
qed

lemma mod_dvd_mod:
  fixes y :: int
  shows "y mod 400 = 0 \<Longrightarrow> y mod 100 = 0" and "y mod 100 = 0 \<Longrightarrow> y mod 4 = 0"
proof -
  have "(100::int) dvd 400" "(4::int) dvd 100" by simp_all
  then show "y mod 400 = 0 \<Longrightarrow> y mod 100 = 0" and "y mod 100 = 0 \<Longrightarrow> y mod 4 = 0"
    by (meson dvd_trans mod_0_imp_dvd dvd_imp_mod_0)+
qed

lemma DayFromYear_Suc: "DayFromYear (y + 1) = DayFromYear y + DaysInYear y"
proof -
  have a: "(y + 1 - 1969) div 4 = (y - 1969) div 4 + (if (y - 1968) mod 4 = 0 then 1 else 0)"
    using div_next [of 4 "y - 1969"] by (simp add: algebra_simps)
  have b: "(y + 1 - 1901) div 100 = (y - 1901) div 100 + (if (y - 1900) mod 100 = 0 then 1 else 0)"
    using div_next [of 100 "y - 1901"] by (simp add: algebra_simps)
  have c: "(y + 1 - 1601) div 400 = (y - 1601) div 400 + (if (y - 1600) mod 400 = 0 then 1 else 0)"
    using div_next [of 400 "y - 1601"] by (simp add: algebra_simps)
  have m4: "(y - 1968) mod 4 = y mod 4"
    using mod_diff_eq [of y 4 1968] by simp
  have m100: "(y - 1900) mod 100 = y mod 100"
    using mod_diff_eq [of y 100 1900] by simp
  have m400: "(y - 1600) mod 400 = y mod 400"
    using mod_diff_eq [of y 400 1600] by simp
  show ?thesis
    unfolding DayFromYear_def DaysInYear_def a b c m4 m100 m400
    using mod_dvd_mod [of y] by auto
qed

lemma DaysInYear_pos: "365 \<le> DaysInYear y" "DaysInYear y \<le> 366"
  by (simp_all add: DaysInYear_def)

lemma DayFromYear_mono_step: "DayFromYear y < DayFromYear (y + 1)"
  using DayFromYear_Suc [of y] DaysInYear_pos(1) [of y] by linarith

lemma DayFromYear_mono:
  assumes "y \<le> z"
  shows "DayFromYear y \<le> DayFromYear z"
  using assms
proof (induction z rule: int_ge_induct)
  case base
  show ?case by simp
next
  case (step i)
  then show ?case using DayFromYear_mono_step [of i] by linarith
qed

lemma TimeFromYear_le_iff: "TimeFromYear y \<le> t \<longleftrightarrow> DayFromYear y \<le> Day t"
proof -
  define q where "q = t div 86400000"
  have "86400000 * q \<le> t" "t < 86400000 * q + 86400000"
    unfolding q_def by (rule div_bounds, simp)+
  then have "86400000 * DayFromYear y \<le> t \<longleftrightarrow> DayFromYear y \<le> q"
    by linarith
  then show ?thesis
    by (simp add: TimeFromYear_def Day_def msPerDay_def q_def)
qed

lemma YearFromTime_le: "TimeFromYear (YearFromTime t) \<le> t"
  by (simp add: TimeFromYear_le_iff YearFromTime_lower)

lemma YearFromTime_largest:
  assumes "TimeFromYear y \<le> t"
  shows "y \<le> YearFromTime t"
proof (rule ccontr)
  assume "\<not> y \<le> YearFromTime t"
  then have "YearFromTime t + 1 \<le> y" by simp
  then have "DayFromYear (YearFromTime t + 1) \<le> DayFromYear y"
    by (rule DayFromYear_mono)
  moreover have "DayFromYear y \<le> Day t"
    using assms by (simp add: TimeFromYear_le_iff)
  ultimately show False
    using YearFromTime_upper [of t] by linarith
qed

lemma DayWithinYear_bounds:
  "0 \<le> DayWithinYear t" "DayWithinYear t < DaysInYear (YearFromTime t)"
  using YearFromTime_lower [of t] YearFromTime_upper [of t] DayFromYear_Suc [of "YearFromTime t"]
  by (simp_all add: DayWithinYear_def)

lemma MonthFromTime_range: "0 \<le> MonthFromTime t" "MonthFromTime t \<le> 11"
  by (simp_all add: MonthFromTime_def Let_def)

lemma DaysBeforeMonth_DateFromTime:
  "DaysBeforeMonth (YearFromTime t) (MonthFromTime t) + DateFromTime t - 1 = DayWithinYear t"
  by (simp add: DaysBeforeMonth_def DateFromTime_def MonthFromTime_def InLeapYear_def Let_def)

lemma MakeDay_components:
  "MakeDay (YearFromTime t) (MonthFromTime t) (DateFromTime t) = Day t"
proof -
  have "MonthFromTime t div 12 = 0" "MonthFromTime t mod 12 = MonthFromTime t"
    using MonthFromTime_range [of t] by simp_all
  then have "MakeDay (YearFromTime t) (MonthFromTime t) (DateFromTime t) =
      DayFromYear (YearFromTime t) +
        (DaysBeforeMonth (YearFromTime t) (MonthFromTime t) + DateFromTime t - 1)"
    by (simp add: MakeDay_def Let_def)
  also have "\<dots> = Day t"
    unfolding DaysBeforeMonth_DateFromTime by (simp add: DayWithinYear_def)
  finally show ?thesis .
qed

lemma UTCmidnight_Day: "UTCmidnight t = Day t * msPerDay"
  by (simp add: UTCmidnight_def Day_def minus_mod_eq_div_mult)

lemma valid_time_UTCmidnight:
  assumes "valid_time t"
  shows "valid_time (UTCmidnight t)"
proof -
  define q where "q = t div 86400000"
  have q: "86400000 * q \<le> t" "t < 86400000 * q + 86400000"
    unfolding q_def by (rule div_bounds, simp)+
  have t: "- 8640000000000000 \<le> t" "t \<le> 8640000000000000"
    using assms by (simp_all add: valid_time_def abs_le_iff)
  have "86400000 * (- 100000000) < 86400000 * q + 86400000"
    using q(2) t(1) by linarith
  then have "- 100000000 \<le> q"
    by linarith
  then have "- 8640000000000000 \<le> 86400000 * q"
    by linarith
  moreover have "86400000 * q \<le> 8640000000000000"
    using q(1) t(2) by linarith
  ultimately have "- 8640000000000000 \<le> 86400000 * q" "86400000 * q \<le> 8640000000000000"
    by simp_all
  then show ?thesis
    by (simp add: UTCmidnight_Day Day_def msPerDay_def valid_time_def q_def abs_le_iff mult.commute)
qed

lemma Date_UTC_components:
  assumes "valid_time t" and "YearFromTime t < 0 \<or> 99 < YearFromTime t"
  shows "Date_UTC (getUTCFullYear t) (getUTCMonth t) (getUTCDate t) = Some (UTCmidnight t)"
proof -
  have "MakeFullYear (YearFromTime t) = YearFromTime t"
    using assms(2) by (auto simp add: MakeFullYear_def)
  then have "Date_UTC (getUTCFullYear t) (getUTCMonth t) (getUTCDate t) =
      TimeClip (UTCmidnight t)"
    by (simp add: Date_UTC_def getUTCFullYear_def getUTCMonth_def getUTCDate_def
        MakeDay_components MakeDate_def UTCmidnight_Day)
  also have "\<dots> = Some (UTCmidnight t)"
    using valid_time_UTCmidnight [OF assms(1)] by (simp add: TimeClip_def valid_time_def)
  finally show ?thesis .
qed

lemma validator_enforced:
  assumes "isNew this \<or> isModified this ''deliveredAt''"
  shows "validator this value now =
     num_ge (Date_UTC (getUTCFullYear value) (getUTCMonth value) (getUTCDate value))
       (num_add (Date_UTC (getUTCFullYear now) (getUTCMonth now) (getUTCDate now))
          (Some 604800000))"
  using assms by (simp add: validator_def Let_def)

lemma validator_iff_UTCmidnight:
  assumes "isNew this \<or> isModified this ''deliveredAt''"
    and "valid_time now" and "YearFromTime now < 0 \<or> 99 < YearFromTime now"
    and "valid_time value" and "YearFromTime value < 0 \<or> 99 < YearFromTime value"
  shows "validator this value now \<longleftrightarrow> UTCmidnight value \<ge> UTCmidnight now + 7 * msPerDay"
  unfolding validator_enforced [OF assms(1)]
    Date_UTC_components [OF assms(2,3)] Date_UTC_components [OF assms(4,5)]
  by (simp add: num_ge_def num_add_def msPerDay_def)

lemma YearFromTime_eqI:
  assumes "DayFromYear y \<le> Day t" and "Day t < DayFromYear (y + 1)"
  shows "YearFromTime t = y"
proof (rule antisym)
  show "y \<le> YearFromTime t"
    using assms(1) by (intro YearFromTime_largest) (simp add: TimeFromYear_le_iff)
  show "YearFromTime t \<le> y"
  proof (rule ccontr)
    assume "\<not> YearFromTime t \<le> y"
    then have "y + 1 \<le> YearFromTime t" by simp
    then have "DayFromYear (y + 1) \<le> DayFromYear (YearFromTime t)"
      by (rule DayFromYear_mono)
    then show False
      using YearFromTime_lower [of t] assms(2) by linarith
  qed
qed

lemma DaysBeforeMonth_bounds:
  assumes "0 \<le> mn" and "mn \<le> 11"
  shows "0 \<le> DaysBeforeMonth ym mn" and "DaysBeforeMonth ym mn < DaysInYear ym"
  using DaysInYear_pos [of ym] by (simp_all add: DaysBeforeMonth_def Let_def)

lemma Day_MakeDate: "Day (MakeDate d 0) = d"
  by (simp add: Day_def MakeDate_def msPerDay_def)

lemma MakeDay_first_day:
  assumes "0 \<le> mn" and "mn \<le> 11"
  shows "YearFromTime (MakeDate (MakeDay ym mn 1) 0) = ym \<and>
         MonthFromTime (MakeDate (MakeDay ym mn 1) 0) = mn \<and>
         DateFromTime (MakeDate (MakeDay ym mn 1) 0) = 1"
proof -
  let ?t = "MakeDate (MakeDay ym mn 1) 0"
  have m: "mn div 12 = 0" "mn mod 12 = mn"
    using assms by simp_all
  have d: "Day ?t = DayFromYear ym + DaysBeforeMonth ym mn"
    by (simp add: Day_MakeDate MakeDay_def m)
  have y: "YearFromTime ?t = ym"
    using DaysBeforeMonth_bounds [OF assms, of ym] DayFromYear_Suc [of ym]
    by (intro YearFromTime_eqI) (simp_all add: d)
  have w: "DayWithinYear ?t = DaysBeforeMonth ym mn"
    by (simp add: DayWithinYear_def y d)
  have l: "InLeapYear ?t = (if DaysInYear ym = 366 then 1 else 0)"
    by (simp add: InLeapYear_def y)
  have c: "mn = 0 \<or> mn = 1 \<or> mn = 2 \<or> mn = 3 \<or> mn = 4 \<or> mn = 5 \<or> mn = 6 \<or> mn = 7 \<or>
      mn = 8 \<or> mn = 9 \<or> mn = 10 \<or> mn = 11"
    using assms by presburger
  have mo: "MonthFromTime ?t = mn"
    unfolding MonthFromTime_def w l using c by (auto simp add: DaysBeforeMonth_def)
  have "DateFromTime ?t = 1"
    unfolding DateFromTime_def mo w l using c by (auto simp add: DaysBeforeMonth_def)
  with y mo show ?thesis by simp
qed

section \<open>Properties of the deliveredAt validator\<close>

lemma UTCmidnight_idem: "UTCmidnight (UTCmidnight t + k * msPerDay) = UTCmidnight t + k * msPerDay"
  by (simp add: UTCmidnight_def msPerDay_def)

lemma validator_boundary:
  assumes "isNew this \<or> isModified this ''deliveredAt''"
    and "valid_time now" and "YearFromTime now < 0 \<or> 99 < YearFromTime now"
    and "valid_time (UTCmidnight now + 7 * msPerDay)"
    and "YearFromTime (UTCmidnight now + 7 * msPerDay) < 0 \<or>
         99 < YearFromTime (UTCmidnight now + 7 * msPerDay)"
  shows "validator this (UTCmidnight now + 7 * msPerDay) now"
  using validator_iff_UTCmidnight [OF assms] by (simp add: UTCmidnight_idem)

lemma validator_rejects_with_message:
  assumes "isNew this \<or> isModified this ''deliveredAt''"
    and "valid_time now" and "YearFromTime now < 0 \<or> 99 < YearFromTime now"
    and "valid_time value" and "YearFromTime value < 0 \<or> 99 < YearFromTime value"
    and "UTCmidnight value < UTCmidnight now + 7 * msPerDay"
  shows "deliveredAt_validate this value now =
     Some ''Delivery date must be at least one week in the future.''"
  using validator_iff_UTCmidnight [OF assms(1-5)] assms(6)
  by (simp add: deliveredAt_validate_def deliveredAt_message_def)

lemma DaysBeforeMonth_leap:
  "DaysBeforeMonth a mn \<le> DaysBeforeMonth b mn + 1" 
  by (simp add: DaysBeforeMonth_def Let_def)

lemma DayFromYear_values:
  "DayFromYear 100 = - 683003" "DayFromYear 1900 = - 25567" "DayFromYear 1999 = 10592"
  "DayFromYear 2000 = 10957"
  by (simp_all add: DayFromYear_def)

lemma YearFromTime_from_2000:
  assumes "946684800000 \<le> now"
  shows "2000 \<le> YearFromTime now" and "10957 \<le> Day now"
proof -
  have "TimeFromYear 2000 \<le> now"
    using assms by (simp add: TimeFromYear_def DayFromYear_values msPerDay_def)
  then show "2000 \<le> YearFromTime now"
    by (rule YearFromTime_largest)
  from \<open>TimeFromYear 2000 \<le> now\<close> show "10957 \<le> Day now"
    by (simp add: TimeFromYear_le_iff DayFromYear_values)
qed

lemma Date_UTC_two_digit_year:
  assumes "0 \<le> YearFromTime t" and "YearFromTime t \<le> 99"
  shows "\<exists>c. Date_UTC (getUTCFullYear t) (getUTCMonth t) (getUTCDate t) = Some c \<and>
     c < 10960 * msPerDay \<and> Day t < 0"
proof -
  define y where "y = YearFromTime t"
  define m where "m = MonthFromTime t"
  define b where "b = DaysBeforeMonth (1900 + y) m"
  define b' where "b' = DaysBeforeMonth y m"
  define d where "d = DateFromTime t"
  define f where "f = DayFromYear (1900 + y)"
  have mr: "m div 12 = 0" "m mod 12 = m"
    using MonthFromTime_range [of t] by (simp_all add: m_def)
  have w: "b' + d - 1 = DayWithinYear t"
    unfolding b'_def d_def y_def m_def by (rule DaysBeforeMonth_DateFromTime)
  have wy: "0 \<le> DayWithinYear t" "DayWithinYear t < 367"
    using DayWithinYear_bounds [of t] DaysInYear_pos(2) [of "YearFromTime t"] by simp_all
  have bb: "b \<le> b' + 1" "b' \<le> b + 1"
    unfolding b_def b'_def by (rule DaysBeforeMonth_leap)+
  have fl: "- 25567 \<le> f"
    using DayFromYear_mono [of 1900 "1900 + y"] assms(1)
    by (simp add: f_def y_def DayFromYear_values)
  have fu: "f \<le> 10592"
    using DayFromYear_mono [of "1900 + y" 1999] assms(2)
    by (simp add: f_def y_def DayFromYear_values)
  define day where "day = f + b + d - 1"
  have day: "- 25569 \<le> day" "day \<le> 10959"
    using w wy bb fl fu by (simp_all add: day_def)
  have "MakeFullYear y = 1900 + y"
    using assms by (simp add: MakeFullYear_def y_def)
  then have "Date_UTC (getUTCFullYear t) (getUTCMonth t) (getUTCDate t) =
      TimeClip (day * msPerDay)"
    by (simp add: Date_UTC_def getUTCFullYear_def getUTCMonth_def getUTCDate_def MakeDay_def
        MakeDate_def Let_def mr day_def f_def b_def d_def
        y_def [symmetric] m_def [symmetric])
  moreover have "TimeClip (day * msPerDay) = Some (day * msPerDay)"
    using day by (simp add: TimeClip_def msPerDay_def abs_le_iff)
  moreover have "day * msPerDay < 10960 * msPerDay"
    using day(2) by (simp add: msPerDay_def)
  moreover have "Day t < 0"
  proof -
    have "Day t < DayFromYear (YearFromTime t + 1)"
      by (rule YearFromTime_upper)
    also have "\<dots> \<le> DayFromYear 100"
      using assms(2) by (intro DayFromYear_mono) simp
    finally show ?thesis
      by (simp add: DayFromYear_values)
  qed
  ultimately show ?thesis by simp
qed

lemma validator_from_2000:
  assumes "isNew this \<or> isModified this ''deliveredAt''"
    and "valid_time now" and "946684800000 \<le> now" and "valid_time value"
  shows "validator this value now \<longleftrightarrow> UTCmidnight now + 7 * msPerDay \<le> UTCmidnight value"
proof (cases "0 \<le> YearFromTime value \<and> YearFromTime value \<le> 99")
  case False
  then have "YearFromTime value < 0 \<or> 99 < YearFromTime value"
    by linarith
  moreover have "YearFromTime now < 0 \<or> 99 < YearFromTime now"
    using YearFromTime_from_2000(1) [OF assms(3)] by simp
  ultimately show ?thesis
    using validator_iff_UTCmidnight [OF assms(1,2) _ assms(4)] by auto
next
  case True
  then obtain c where c: "Date_UTC (getUTCFullYear value) (getUTCMonth value) (getUTCDate value) =
      Some c" "c < 10960 * msPerDay" "Day value < 0"
    using Date_UTC_two_digit_year [of "value"] by blast
  have n: "Date_UTC (getUTCFullYear now) (getUTCMonth now) (getUTCDate now) =
      Some (UTCmidnight now)"
    using YearFromTime_from_2000(1) [OF assms(3)] by (intro Date_UTC_components assms(2)) simp
  have d: "10957 * msPerDay \<le> UTCmidnight now"
    using YearFromTime_from_2000(2) [OF assms(3)] by (simp add: UTCmidnight_Day msPerDay_def)
  have v: "UTCmidnight value < 0"
    using c(3) by (simp add: UTCmidnight_Day msPerDay_def)
  have "\<not> validator this value now"
    unfolding validator_enforced [OF assms(1)] n c(1)
    using c(2) d by (simp add: num_ge_def num_add_def msPerDay_def)
  moreover have "\<not> UTCmidnight now + 7 * msPerDay \<le> UTCmidnight value"
    using d v by (simp add: msPerDay_def)
  ultimately show ?thesis by simp
qed

text \<open>
  C1. On a new letter, or when \<^verbatim>\<open>deliveredAt\<close> is modified, with the clock at or after
  2000-01-01T00:00:00Z, the validator accepts a date exactly if its UTC midnight is at
  least the UTC midnight of the current time plus seven days; the boundary itself is
  accepted, and any earlier date is rejected with the message of the schema. This holds
  for every valid date, those of the years 0 to 99 included, which \<^verbatim>\<open>Date.UTC\<close> reads as
  the years 1900 to 1999: they lie before the minimum either way.
\<close>

theorem validator_seven_day_rule:
  assumes "isNew this \<or> isModified this ''deliveredAt''"
    and "valid_time now" and "946684800000 \<le> now" and "valid_time value"
  shows "validator this value now = (UTCmidnight now + 7 * msPerDay \<le> UTCmidnight value) \<and>
    deliveredAt_validate this value now =
      (if UTCmidnight now + 7 * msPerDay \<le> UTCmidnight value then None
       else Some ''Delivery date must be at least one week in the future.'') \<and>
    (valid_time (UTCmidnight now + 7 * msPerDay) \<longrightarrow>
       validator this (UTCmidnight now + 7 * msPerDay) now \<and>
       deliveredAt_validate this (UTCmidnight now + 7 * msPerDay) now = None)"
proof -
  have v: "validator this value now = (UTCmidnight now + 7 * msPerDay \<le> UTCmidnight value)"
    using assms by (rule validator_from_2000)
  have b: "validator this (UTCmidnight now + 7 * msPerDay) now"
    if "valid_time (UTCmidnight now + 7 * msPerDay)"
    using validator_from_2000 [OF assms(1-3) that] by (simp add: UTCmidnight_idem)
  show ?thesis
    using v b by (simp add: deliveredAt_validate_def deliveredAt_message_def)
qed

theorem validator_seven_day_rule_witness:
  "validator \<lparr>isNew = True, isModified = (\<lambda>p. False)\<rparr> 1794268800000 1793664000001 \<and>
   deliveredAt_validate \<lparr>isNew = True, isModified = (\<lambda>p. False)\<rparr> 1794268800000 1793664000001 =
     None \<and>
   \<not> validator \<lparr>isNew = False, isModified = (\<lambda>p. p = ''deliveredAt'')\<rparr> 1794268799999
       1793664000001 \<and>
   deliveredAt_validate \<lparr>isNew = False, isModified = (\<lambda>p. p = ''deliveredAt'')\<rparr> 1794268799999
       1793664000001 =
     Some ''Delivery date must be at least one week in the future.'' \<and>
   deliveredAt_validate \<lparr>isNew = True, isModified = (\<lambda>p. False)\<rparr> (- 59011545600000)
       1793664000001 =
     Some ''Delivery date must be at least one week in the future.''"
proof -
  let ?new = "\<lparr>isNew = True, isModified = (\<lambda>p. False)\<rparr>"
  let ?moved = "\<lparr>isNew = False, isModified = (\<lambda>p. p = ''deliveredAt'')\<rparr>"
  have h: "isNew ?new \<or> isModified ?new ''deliveredAt''"
    "isNew ?moved \<or> isModified ?moved ''deliveredAt''"
    "valid_time 1793664000001" "946684800000 \<le> (1793664000001 :: int)"
    "valid_time 1794268800000" "valid_time 1794268799999" "valid_time (- 59011545600000)"
    by (simp_all add: valid_time_def)
  have m: "UTCmidnight 1793664000001 + 7 * msPerDay = 1794268800000"
    "UTCmidnight 1794268800000 = 1794268800000"
    "UTCmidnight 1794268799999 = 1794182400000"
    "UTCmidnight (- 59011545600000) = - 59011545600000"
    by (simp_all add: UTCmidnight_def msPerDay_def)
  from validator_seven_day_rule [OF h(1) h(3) h(4) h(5)]
    validator_seven_day_rule [OF h(2) h(3) h(4) h(6)]
    validator_seven_day_rule [OF h(1) h(3) h(4) h(7)]
  show ?thesis
    unfolding m by simp
qed

text \<open>
  The bound on the clock is needed: with the clock at 1970-01-01T00:00:00Z, the date
  0099-12-31T00:00:00Z is compared as 1999-12-31 and accepted, although its UTC midnight
  lies before the minimum.
\<close>

lemma validator_accepts_year_99:
  "valid_time (- 59011545600000) \<and> valid_time 0 \<and>
   getUTCFullYear (- 59011545600000) = 99 \<and>
   getUTCMonth (- 59011545600000) = 11 \<and>
   getUTCDate (- 59011545600000) = 31 \<and>
   Date_UTC 99 11 31 = Some 946598400000 \<and>
   validator \<lparr>isNew = True, isModified = (\<lambda>p. False)\<rparr> (- 59011545600000) 0 \<and>
   UTCmidnight (- 59011545600000) < UTCmidnight 0 + 7 * msPerDay"
  by code_simp

text \<open>
  C2. On an update of an existing letter that does not modify \<^verbatim>\<open>deliveredAt\<close>, the
  validator returns true whatever the stored date and the current time are, so the
  validation passes; the seven-day rule can only reject a letter that is new or whose
  \<^verbatim>\<open>deliveredAt\<close> is modified.
\<close>

theorem validator_skips_unmodified:
  assumes "\<not> isNew this" and "\<not> isModified this ''deliveredAt''"
  shows "validator this value now \<and> deliveredAt_validate this value now = None"
  using assms by (simp add: validator_def deliveredAt_validate_def)

theorem validator_skips_unmodified_witness:
  "\<not> isNew \<lparr>isNew = False, isModified = (\<lambda>p. p = ''isDelivered'')\<rparr> \<and>
   \<not> isModified \<lparr>isNew = False, isModified = (\<lambda>p. p = ''isDelivered'')\<rparr> ''deliveredAt'' \<and>
   validator \<lparr>isNew = False, isModified = (\<lambda>p. p = ''isDelivered'')\<rparr> 0 1767225600000 \<and>
   deliveredAt_validate \<lparr>isNew = False, isModified = (\<lambda>p. p = ''isDelivered'')\<rparr> 0 1767225600000 = None"
  using validator_skips_unmodified
    [of "\<lparr>isNew = False, isModified = (\<lambda>p. p = ''isDelivered'')\<rparr>" 0 1767225600000]
  by simp

section \<open>Objects and paths\<close>

lemma length_ordered_keys: "length (ordered_keys ks) = length ks"
  by (simp add: ordered_keys_def sum_length_filter_compl)

lemma ordered_keys_Nil_iff: "ordered_keys ks = [] \<longleftrightarrow> ks = []"
  using length_ordered_keys [of ks] by (metis length_0_conv)

lemma set_ordered_keys: "set (ordered_keys ks) = set ks"
  by (auto simp add: ordered_keys_def)

lemma distinct_ordered_keys: "distinct ks \<Longrightarrow> distinct (ordered_keys ks)"
  by (auto simp add: ordered_keys_def)

lemma lookup_entry: "distinct (map fst es) \<Longrightarrow> (k, e) \<in> set es \<Longrightarrow> lookup (Obj es) k = e"
  by simp

lemma has_own_Obj: "has_own (Obj ps) k \<longleftrightarrow> k \<in> fst ` set ps"
  by (simp add: has_own_def)

text \<open>
  The name a path is filed under is its last segment: the path is a prefix, empty or
  ending in a dot, followed by the name, and the name has no dot.
\<close>

lemma split_dot_nonempty: "split_dot s \<noteq> []"
  by (induction s) (simp_all split: list.splits)

lemma split_dot_no_dot: "CHR ''.'' \<notin> set s \<Longrightarrow> split_dot s = [s]"
  by (induction s) auto

lemma split_dot_dot: "CHR ''.'' \<in> set s \<Longrightarrow> tl (split_dot s) \<noteq> []"
  by (induction s) (auto simp add: split_dot_nonempty split: list.splits)

lemma last_split_dot:
  "\<exists>pre. s = pre @ last (split_dot s) \<and> (pre = [] \<or> last pre = CHR ''.'') \<and>
     CHR ''.'' \<notin> set (last (split_dot s))"
proof (induction s)
  case Nil
  show ?case by simp
next
  case (Cons c cs)
  then obtain pre where pre: "cs = pre @ last (split_dot cs)"
    "pre = [] \<or> last pre = CHR ''.''" "CHR ''.'' \<notin> set (last (split_dot cs))"
    by blast
  obtain w ws where w: "split_dot cs = w # ws"
    using split_dot_nonempty [of cs] by (cases "split_dot cs") simp_all
  show ?case
  proof (cases "c = CHR ''.''")
    case True
    then have "last (split_dot (c # cs)) = last (split_dot cs)"
      by (simp add: split_dot_nonempty)
    moreover have "c # cs = (c # pre) @ last (split_dot cs)" "last (c # pre) = CHR ''.''"
      using pre(1,2) True by auto
    ultimately show ?thesis
      using pre(3) by metis
  next
    case False
    show ?thesis
    proof (cases "ws = []")
      case True
      have "last (split_dot (c # cs)) = c # last (split_dot cs)"
        using False True w by simp
      moreover have "pre = []"
      proof (rule ccontr)
        assume "pre \<noteq> []"
        with pre(2) have "CHR ''.'' \<in> set pre"
          using last_in_set by fastforce
        then have "CHR ''.'' \<in> set cs"
          using pre(1) by (metis UnCI set_append)
        then show False
          using split_dot_dot [of cs] True w by simp
      qed
      ultimately show ?thesis
        using pre False by auto
    next
      case nonempty: False
      then have "last (split_dot (c # cs)) = last (split_dot cs)"
        using False w by simp
      moreover have "pre \<noteq> []"
      proof
        assume "pre = []"
        with pre(1,3) have "CHR ''.'' \<notin> set cs" by simp
        then have "split_dot cs = [cs]" by (rule split_dot_no_dot)
        with nonempty w show False by simp
      qed
      then have "c # cs = (c # pre) @ last (split_dot cs)" "last (c # pre) = CHR ''.''"
        using pre(1,2) by auto
      ultimately show ?thesis
        using pre(3) by metis
    qed
  qed
qed

lemma leaf_segment:
  "\<exists>pre. p = pre @ leaf p \<and> (pre = [] \<or> last pre = CHR ''.'') \<and> CHR ''.'' \<notin> set (leaf p)"
proof (cases "CHR ''.'' \<in> set p")
  case True
  then show ?thesis
    using last_split_dot [of p] by (simp add: leaf_def)
next
  case False
  then have "p = [] @ leaf p" "CHR ''.'' \<notin> set (leaf p)"
    by (simp_all add: leaf_def)
  then show ?thesis by blast
qed

text \<open>
  Assignments to an object, one after the other: the keys stay distinct, every key
  assigned but \<^verbatim>\<open>__proto__\<close> becomes a property, and every new property comes from an
  assignment.
\<close>

lemma set_update_subset: "set (AList.update k v ps) \<subseteq> insert (k, v) (set ps)"
  by (induction ps) auto

lemma assign_cases:
  "snd (assign obj k v) = snd obj \<and> k = ''__proto__'' \<or>
   snd (assign obj k v) = AList.update k v (snd obj)"
proof (cases "k = ''__proto__'' \<and> ''__proto__'' \<notin> set (map fst (snd obj)) \<and>
    inherits_accessor (fst obj)")
  case True
  then show ?thesis
    by (cases v) (simp_all add: assign_def)
next
  case False
  then have "assign obj k v = (fst obj, AList.update k v (snd obj))"
    unfolding assign_def by (rule if_not_P)
  then show ?thesis by simp
qed

lemma assign_update:
  "k \<noteq> ''__proto__'' \<Longrightarrow> assign obj k v = (fst obj, AList.update k v (snd obj))"
  by (simp add: assign_def)

lemma assign_keys_lower:
  "fst ` set (snd obj) \<union> ({k} - {''__proto__''}) \<subseteq> fst ` set (snd (assign obj k v))"
  using assign_cases [of obj k v]
proof (elim disjE conjE)
  assume "snd (assign obj k v) = snd obj" and "k = ''__proto__''"
  then show ?thesis by simp
next
  assume property: "snd (assign obj k v) = AList.update k v (snd obj)"
  have "fst ` set (snd obj) \<union> ({k} - {''__proto__''}) \<subseteq> {k} \<union> fst ` set (snd obj)"
    by blast
  then show ?thesis
    by (simp only: property AList.dom_update)
qed

lemma assign_keys_upper: "fst ` set (snd (assign obj k v)) \<subseteq> insert k (fst ` set (snd obj))"
  using assign_cases [of obj k v]
proof (elim disjE conjE)
  assume "snd (assign obj k v) = snd obj" and "k = ''__proto__''"
  then show ?thesis by auto
next
  assume property: "snd (assign obj k v) = AList.update k v (snd obj)"
  show ?thesis
    by (simp only: property AList.dom_update) simp
qed

lemma assign_distinct:
  "distinct (map fst (snd obj)) \<Longrightarrow> distinct (map fst (snd (assign obj k v)))"
  using assign_cases [of obj k v] by (auto simp add: AList.distinct_update)

lemma assign_member:
  assumes "(k', v') \<in> set (snd (assign obj k v))"
  shows "(k', v') \<in> set (snd obj) \<or> (k' = k \<and> v' = v)"
  using assign_cases [of obj k v]
proof (elim disjE conjE)
  assume "snd (assign obj k v) = snd obj" and "k = ''__proto__''"
  with assms show ?thesis by simp
next
  assume "snd (assign obj k v) = AList.update k v (snd obj)"
  with assms set_update_subset [of k v "snd obj"] show ?thesis by auto
qed

lemma assign_lookup:
  "k \<noteq> ''__proto__'' \<Longrightarrow>
     map_of (snd (assign obj k v)) k' = (if k' = k then Some v else map_of (snd obj) k')"
  by (simp add: assign_update AList.update_conv')

lemma file_distinct:
  "distinct (map fst (snd acc)) \<Longrightarrow>
     distinct (map fst (snd (foldl (\<lambda>a x. assign a (f x) (g x)) acc xs)))"
  by (induction xs arbitrary: acc) (simp_all add: assign_distinct)

lemma file_keys_lower:
  "fst ` set (snd acc) \<union> (f ` set xs - {''__proto__''}) \<subseteq>
     fst ` set (snd (foldl (\<lambda>a x. assign a (f x) (g x)) acc xs))"
proof (induction xs arbitrary: acc)
  case Nil
  show ?case by simp
next
  case (Cons x xs)
  have "fst ` set (snd acc) \<union> (f ` set (x # xs) - {''__proto__''}) \<subseteq>
      fst ` set (snd (assign acc (f x) (g x))) \<union> (f ` set xs - {''__proto__''})"
    using assign_keys_lower [of acc "f x" "g x"] by auto
  also have "\<dots> \<subseteq> fst ` set (snd (foldl (\<lambda>a x. assign a (f x) (g x)) acc (x # xs)))"
    using Cons.IH [of "assign acc (f x) (g x)"] by simp
  finally show ?case .
qed

lemma file_keys_upper:
  "fst ` set (snd (foldl (\<lambda>a x. assign a (f x) (g x)) acc xs)) \<subseteq>
     fst ` set (snd acc) \<union> f ` set xs"
proof (induction xs arbitrary: acc)
  case Nil
  show ?case by simp
next
  case (Cons x xs)
  have "fst ` set (snd (foldl (\<lambda>a x. assign a (f x) (g x)) acc (x # xs))) \<subseteq>
      fst ` set (snd (assign acc (f x) (g x))) \<union> f ` set xs"
    using Cons.IH [of "assign acc (f x) (g x)"] by simp
  also have "\<dots> \<subseteq> fst ` set (snd acc) \<union> f ` set (x # xs)"
    using assign_keys_upper [of acc "f x" "g x"] by auto
  finally show ?case .
qed

lemma file_member:
  "(k, v) \<in> set (snd (foldl (\<lambda>a x. assign a (f x) (g x)) acc xs)) \<Longrightarrow>
     (k, v) \<in> set (snd acc) \<or> (\<exists>x \<in> set xs. f x = k \<and> g x = v)"
proof (induction xs arbitrary: acc)
  case Nil
  then show ?case by simp
next
  case (Cons x xs)
  from Cons.IH [of "assign acc (f x) (g x)"] Cons.prems
  have "(k, v) \<in> set (snd (assign acc (f x) (g x))) \<or> (\<exists>y \<in> set xs. f y = k \<and> g y = v)"
    by simp
  then show ?case
    using assign_member [of k v acc "f x" "g x"] by auto
qed

lemma file_keeps:
  assumes "f y \<notin> f ` set xs" and "''__proto__'' \<notin> f ` set xs"
  shows "map_of (snd (foldl (\<lambda>a x. assign a (f x) (g x)) acc xs)) (f y) = map_of (snd acc) (f y)"
  using assms
proof (induction xs arbitrary: acc)
  case Nil
  show ?case by simp
next
  case (Cons z zs)
  then have "f z \<noteq> ''__proto__''" "f y \<noteq> f z" "f y \<notin> f ` set zs" "''__proto__'' \<notin> f ` set zs"
    by auto
  then show ?case
    using Cons.IH [of "assign acc (f z) (g z)"] by (simp add: assign_lookup)
qed

lemma file_lookup_injective:
  assumes "inj_on f (set xs)" and "''__proto__'' \<notin> f ` set xs" and "distinct xs"
    and "x \<in> set xs"
  shows "map_of (snd (foldl (\<lambda>a x. assign a (f x) (g x)) acc xs)) (f x) = Some (g x)"
  using assms
proof (induction xs arbitrary: acc)
  case Nil
  then show ?case by simp
next
  case (Cons y ys)
  have y: "f y \<noteq> ''__proto__''" and ys: "''__proto__'' \<notin> f ` set ys"
    using Cons.prems(2) by auto
  show ?case
  proof (cases "x = y")
    case True
    have "f y \<notin> f ` set ys"
      using Cons.prems(1,3) by (auto simp add: inj_on_def)
    then show ?thesis
      using True y ys by (simp add: file_keeps assign_lookup)
  next
    case False
    then have "x \<in> set ys" using Cons.prems(4) by simp
    moreover have "inj_on f (set ys)" "distinct ys"
      using Cons.prems(1,3) by (auto simp add: inj_on_def)
    ultimately show ?thesis
      using Cons.IH [of "assign acc (f y) (g y)"] ys by simp
  qed
qed

section \<open>Properties of the error handler\<close>

lemmas test_defs = isStorageValidation_def isStorageCast_def isDuplicateKey_def isOperational_def

lemma errorHandler_branches:
  assumes "\<not> nullish error"
  shows "errorHandler error NODE_ENV =
     (if isStorageValidation error then validationResponse error
      else if isStorageCast error then castResponse
      else if isDuplicateKey error then duplicateResponse error
      else if isOperational error then operationalResponse error
      else internalResponse error (NODE_ENV = Some ''development''))"
  using assms by (simp add: errorHandler_def test_defs)

lemma errorHandler_unclassified:
  assumes "unclassified error"
  shows "errorHandler error NODE_ENV = internalResponse error (NODE_ENV = Some ''development'')"
  using assms by (simp add: unclassified_def errorHandler_branches)

lemma validationResponse_Inr:
  assumes "validationResponse error = Inr r"
  shows "\<exists>fieldErrors. extractMongooseErrors error = Inr fieldErrors \<and>
     r = \<lparr>status = Num 400,
          body = Obj [(''success'', Bool False),
                      (''error'', Obj [(''code'', Str ''VALIDATION_ERROR''),
                                       (''message'', getFirstErrorMessage fieldErrors),
                                       (''fields'', Obj fieldErrors)])]\<rparr>"
  using assms by (auto simp add: validationResponse_def split: sum.splits)

lemma duplicateResponse_Inr:
  assumes "duplicateResponse error = Inr r"
  shows "\<exists>f. r = \<lparr>status = Num 400,
          body = Obj [(''success'', Bool False),
                      (''error'', Obj [(''code'', Str ''DUPLICATE_ERROR''),
                                       (''message'', Str (''A record with this '' @ f @ '' already exists'')),
                                       (''fields'', Obj [(f, Str (''This '' @ f @ '' is already in use''))])])]\<rparr>"
  using assms by (auto simp add: duplicateResponse_def Let_def split: sum.splits)

lemma validationResponse_code:
  "validationResponse error = Inr r \<Longrightarrow>
     code_of r = Str ''VALIDATION_ERROR'' \<and> status r = Num 400"
  by (auto dest!: validationResponse_Inr simp add: code_of_def error_of_def)

lemma castResponse_code:
  "castResponse = Inr r \<Longrightarrow> code_of r = Str ''INVALID_ID'' \<and> status r = Num 400"
  by (auto simp add: castResponse_def code_of_def error_of_def)

lemma duplicateResponse_code:
  "duplicateResponse error = Inr r \<Longrightarrow>
     code_of r = Str ''DUPLICATE_ERROR'' \<and> status r = Num 400"
  by (auto dest!: duplicateResponse_Inr simp add: code_of_def error_of_def)

lemma operationalResponse_code:
  "operationalResponse error = Inr r \<Longrightarrow>
     code_of r = (if truthy (lookup error ''code'') then lookup error ''code'' else Str ''ERROR'') \<and>
     status r = lookup error ''statusCode''"
  by (auto simp add: operationalResponse_def code_of_def error_of_def)

lemma internalResponse_code:
  "internalResponse error b = Inr r \<Longrightarrow>
     code_of r = Str ''INTERNAL_ERROR'' \<and> status r = Num 500"
  by (auto simp add: internalResponse_def code_of_def error_of_def)

lemma is_field_error_step:
  assumes "is_field_error (lookup errors k)"
  shows "extract_step errors (Inr acc) k =
     Inr (assign acc (leaf_of (lookup errors k)) (lookup (lookup errors k) ''message''))"
proof -
  obtain p where p: "lookup (lookup errors k) ''path'' = Str p"
    using assms by (auto simp add: is_field_error_def split: jsval.splits)
  then have "\<not> nullish (lookup errors k)"
    by (cases "lookup errors k") simp_all
  then show ?thesis
    using p by (simp add: extract_step_def leaf_of_def)
qed

lemma extract_fold:
  assumes "\<forall>k \<in> set ks. is_field_error (lookup errors k)"
  shows "foldl (extract_step errors) (Inr acc) ks =
     Inr (foldl (\<lambda>a k. assign a (leaf_of (lookup errors k)) (lookup (lookup errors k) ''message''))
            acc ks)"
  using assms by (induction ks arbitrary: acc) (simp_all add: is_field_error_step)

lemma getFirstErrorMessage_hd:
  "getFirstErrorMessage fieldErrors =
     (if fieldErrors = [] then Str ''Validation failed'' else hd (Object_values fieldErrors))"
  by (simp add: getFirstErrorMessage_def Object_values_def ordered_keys_Nil_iff)

lemma lookup_AppError:
  "lookup (Obj (AppError msg sc trace @ ps)) ''name'' = Str ''Error''"
  "lookup (Obj (AppError msg sc trace @ ps)) ''isOperational'' = Bool True"
  "lookup (Obj (AppError msg sc trace @ ps)) ''message'' = Str msg"
  "lookup (Obj (AppError msg sc trace @ ps)) ''statusCode'' =
     Num (case sc of None \<Rightarrow> 400 | Some c \<Rightarrow> c)"
  "lookup (Obj (AppError msg sc trace @ ps)) ''code'' = lookup (Obj ps) ''code''"
  by (simp_all add: AppError_def)

lemma taxonomy_instance:
  assumes "lookup (Obj ps) ''code'' = Str c" and "c \<noteq> []"
  shows "\<exists>r. errorHandler (Obj (AppError msg (Some sc) trace @ ps)) NODE_ENV = Inr r \<and>
     code_of r = Str c \<and> status r = Num sc"
proof -
  let ?E = "Obj (AppError msg (Some sc) trace @ ps)"
  have c: "lookup ?E ''code'' = Str c"
    unfolding lookup_AppError by (fact assms(1))
  have "\<not> isStorageValidation ?E" "\<not> isStorageCast ?E" "\<not> isDuplicateKey ?E" "isOperational ?E"
    unfolding test_defs lookup_AppError assms(1) by simp_all
  then have "errorHandler ?E NODE_ENV = operationalResponse ?E"
    by (simp add: errorHandler_branches)
  moreover obtain r where r: "operationalResponse ?E = Inr r"
    by (simp add: operationalResponse_def)
  moreover have "code_of r = Str c \<and> status r = Num sc"
    using operationalResponse_code [OF r] assms(2) unfolding lookup_AppError assms(1) by simp
  ultimately show ?thesis by simp
qed

subsection \<open>Storage validation failures\<close>

text \<open>
  C3, as the claim states it: a failure with N offending entries gives N entries in
  \<^verbatim>\<open>fields\<close> and the first entry's message as the summary. Two entries whose paths end
  in the same segment share one key: the failure with the entries \<^verbatim>\<open>goals.0.text\<close> and
  \<^verbatim>\<open>goals.1.text\<close> gives a single field \<^verbatim>\<open>text\<close>, which holds the message of the second
  entry, and that message is the summary.
\<close>

theorem colliding_leaf_names:
  "errorHandler
     (Obj [(''name'', Str ''ValidationError''),
           (''errors'',
              Obj [(''goals.0.text'',
                      Obj [(''path'', Str ''goals.0.text''), (''message'', Str ''Goal text is required'')]),
                   (''goals.1.text'',
                      Obj [(''path'', Str ''goals.1.text''),
                           (''message'', Str ''Goal cannot exceed 150 characters'')])])])
     None =
     Inr \<lparr>status = Num 400,
          body = Obj [(''success'', Bool False),
                      (''error'', Obj [(''code'', Str ''VALIDATION_ERROR''),
                                       (''message'', Str ''Goal cannot exceed 150 characters''),
                                       (''fields'',
                                          Obj [(''text'', Str ''Goal cannot exceed 150 characters'')])])]\<rparr>"
  by code_simp

text \<open>
  C3, amended. For a storage validation failure whose \<^verbatim>\<open>errors\<close> collection holds N
  entries, each with a string path, the handler answers with status 400, code
  \<^verbatim>\<open>VALIDATION_ERROR\<close> and a \<^verbatim>\<open>fields\<close> object of at most N entries with distinct keys:
  every last segment of a path other than \<^verbatim>\<open>__proto__\<close> is a key, and every key is the
  last segment of the path of an entry whose message is the value. The summary message
  is the first value of \<^verbatim>\<open>fields\<close> in its iteration order, or \<^verbatim>\<open>Validation failed\<close> when
  \<^verbatim>\<open>fields\<close> is empty. When the N last segments are pairwise distinct and none is
  \<^verbatim>\<open>__proto__\<close>, \<^verbatim>\<open>fields\<close> has exactly N entries and holds every entry's message under
  its last segment.
\<close>

theorem storage_validation_response:
  assumes name: "lookup error ''name'' = Str ''ValidationError''"
    and errors: "lookup error ''errors'' = Obj es"
    and keys: "distinct (map fst es)"
    and entries: "list_all is_field_error (map snd es)"
  shows "\<exists>fieldErrors.
     errorHandler error NODE_ENV =
       Inr \<lparr>status = Num 400,
            body = Obj [(''success'', Bool False),
                        (''error'', Obj [(''code'', Str ''VALIDATION_ERROR''),
                                         (''message'',
                                            (if fieldErrors = [] then Str ''Validation failed''
                                             else hd (Object_values fieldErrors))),
                                         (''fields'', Obj fieldErrors)])]\<rparr> \<and>
     distinct (map fst fieldErrors) \<and>
     set (map (leaf_of \<circ> snd) es) - {''__proto__''} \<subseteq> set (map fst fieldErrors) \<and>
     set (map fst fieldErrors) \<subseteq> set (map (leaf_of \<circ> snd) es) \<and>
     length fieldErrors \<le> length es \<and>
     (\<forall>(k, v) \<in> set fieldErrors.
        \<exists>e p pre. e \<in> set (map snd es) \<and> lookup e ''path'' = Str p \<and> p = pre @ k \<and>
          (pre = [] \<or> last pre = CHR ''.'') \<and> CHR ''.'' \<notin> set k \<and> lookup e ''message'' = v) \<and>
     (distinct (map (leaf_of \<circ> snd) es) \<and> ''__proto__'' \<notin> set (map (leaf_of \<circ> snd) es) \<longrightarrow>
        length fieldErrors = length es \<and>
        (\<forall>e \<in> set (map snd es). lookup (Obj fieldErrors) (leaf_of e) = lookup e ''message''))"
proof -
  let ?f = "\<lambda>k. leaf_of (lookup (Obj es) k)"
  let ?g = "\<lambda>k. lookup (lookup (Obj es) k) ''message''"
  let ?ks = "ordered_keys (map fst es)"
  define fieldErrors
    where "fieldErrors = snd (foldl (\<lambda>a k. assign a (?f k) (?g k)) (ObjectPrototype, []) ?ks)"
  have n: "\<not> nullish error"
    using name by (cases error) simp_all
  have ks: "set ?ks = fst ` set es" "distinct ?ks"
    using keys by (simp_all add: set_ordered_keys distinct_ordered_keys)
  have entry: "lookup (Obj es) k = e" if "(k, e) \<in> set es" for k e
    using keys that by (rule lookup_entry)
  have field_error: "is_field_error e" if "(k, e) \<in> set es" for k e
    using entries that by (auto simp add: list_all_iff)
  have "\<forall>k \<in> set ?ks. is_field_error (lookup (Obj es) k)"
    using ks(1) entry field_error by auto
  then have "map_sum id snd (foldl (extract_step (Obj es)) (Inr (ObjectPrototype, [])) ?ks) =
      Inr fieldErrors"
    unfolding fieldErrors_def by (simp add: extract_fold)
  moreover have "extractMongooseErrors error =
      map_sum id snd (foldl (extract_step (Obj es)) (Inr (ObjectPrototype, [])) ?ks)"
    using n errors by (simp add: extractMongooseErrors_def)
  ultimately have "extractMongooseErrors error = Inr fieldErrors"
    by simp
  moreover have "isStorageValidation error"
    using name errors by (simp add: isStorageValidation_def)
  ultimately have response: "errorHandler error NODE_ENV =
       Inr \<lparr>status = Num 400,
            body = Obj [(''success'', Bool False),
                        (''error'', Obj [(''code'', Str ''VALIDATION_ERROR''),
                                         (''message'',
                                            (if fieldErrors = [] then Str ''Validation failed''
                                             else hd (Object_values fieldErrors))),
                                         (''fields'', Obj fieldErrors)])]\<rparr>"
    using n
    by (simp add: errorHandler_def isStorageValidation_def validationResponse_def
        getFirstErrorMessage_hd)
  have image: "?f ` set ?ks = set (map (leaf_of \<circ> snd) es)"
    unfolding ks(1) using entry by force
  have d: "distinct (map fst fieldErrors)"
    unfolding fieldErrors_def by (rule file_distinct) simp
  have k1: "set (map (leaf_of \<circ> snd) es) - {''__proto__''} \<subseteq> set (map fst fieldErrors)"
    using file_keys_lower [of "(ObjectPrototype, [])" ?f ?ks ?g] image
    by (simp add: fieldErrors_def)
  have k2: "set (map fst fieldErrors) \<subseteq> set (map (leaf_of \<circ> snd) es)"
    using file_keys_upper [of ?f ?g "(ObjectPrototype, [])" ?ks] image
    by (simp add: fieldErrors_def)
  have "card (set (map fst fieldErrors)) \<le> card (set (map (leaf_of \<circ> snd) es))"
    using k2 by (intro card_mono) simp_all
  then have l: "length fieldErrors \<le> length es"
    using distinct_card [OF d] card_length [of "map (leaf_of \<circ> snd) es"] by simp
  have m: "\<exists>e p pre. e \<in> set (map snd es) \<and> lookup e ''path'' = Str p \<and> p = pre @ k \<and>
          (pre = [] \<or> last pre = CHR ''.'') \<and> CHR ''.'' \<notin> set k \<and> lookup e ''message'' = v"
    if "(k, v) \<in> set fieldErrors" for k v
  proof -
    from that obtain x where x: "x \<in> set ?ks" "?f x = k" "?g x = v"
      using file_member [of k v ?f ?g "(ObjectPrototype, [])" ?ks]
      by (auto simp add: fieldErrors_def)
    then obtain e where e: "(x, e) \<in> set es"
      using ks(1) by auto
    then have le: "lookup (Obj es) x = e" by (rule entry)
    obtain p where p: "lookup e ''path'' = Str p"
      using field_error [OF e] by (auto simp add: is_field_error_def split: jsval.splits)
    then have "k = leaf p"
      using x(2) le by (simp add: leaf_of_def)
    then obtain pre where "p = pre @ k" "pre = [] \<or> last pre = CHR ''.''" "CHR ''.'' \<notin> set k"
      using leaf_segment [of p] by auto
    moreover have "e \<in> set (map snd es)" "lookup e ''message'' = v"
      using e x(3) le by force+
    ultimately show ?thesis
      using p by blast
  qed
  have i: "length fieldErrors = length es \<and>
        (\<forall>e \<in> set (map snd es). lookup (Obj fieldErrors) (leaf_of e) = lookup e ''message'')"
    if inj: "distinct (map (leaf_of \<circ> snd) es)"
      and proto: "''__proto__'' \<notin> set (map (leaf_of \<circ> snd) es)"
  proof
    have "card (set (map (leaf_of \<circ> snd) es)) \<le> card (set (map fst fieldErrors))"
      using k1 proto by (intro card_mono) simp_all
    then show "length fieldErrors = length es"
      using l distinct_card [OF inj] distinct_card [OF d] by simp
    have inj_es: "inj_on (leaf_of \<circ> snd) (set es)"
      using inj by (simp add: distinct_map)
    have "inj_on ?f (set ?ks)"
    proof (rule inj_onI)
      fix a b
      assume "a \<in> set ?ks" "b \<in> set ?ks" "?f a = ?f b"
      then obtain ea eb where ab: "(a, ea) \<in> set es" "(b, eb) \<in> set es"
        using ks(1) by auto
      with \<open>?f a = ?f b\<close> have "(leaf_of \<circ> snd) (a, ea) = (leaf_of \<circ> snd) (b, eb)"
        using entry by simp
      then have "(a, ea) = (b, eb)"
        using inj_onD [OF inj_es _ ab] by blast
      then show "a = b" by simp
    qed
    moreover have "''__proto__'' \<notin> ?f ` set ?ks"
      using proto image by simp
    ultimately have found: "map_of fieldErrors (?f x) = Some (?g x)" if "x \<in> set ?ks" for x
      unfolding fieldErrors_def using ks(2) that
      by (intro file_lookup_injective) simp_all
    show "\<forall>e \<in> set (map snd es). lookup (Obj fieldErrors) (leaf_of e) = lookup e ''message''"
    proof
      fix e
      assume "e \<in> set (map snd es)"
      then obtain x where x: "(x, e) \<in> set es" by auto
      then have "x \<in> set ?ks" using ks(1) by force
      from found [OF this] entry [OF x]
      show "lookup (Obj fieldErrors) (leaf_of e) = lookup e ''message''"
        by simp
    qed
  qed
  show ?thesis
    using response d k1 k2 l m i by (intro exI [of _ fieldErrors]) blast
qed

theorem storage_validation_response_witness:
  "\<exists>fieldErrors.
     errorHandler
       (Obj [(''name'', Str ''ValidationError''),
             (''errors'',
                Obj [(''content'',
                        Obj [(''path'', Str ''content''),
                             (''message'', Str ''Letter content is required'')]),
                     (''reflections.0.reflection'',
                        Obj [(''path'', Str ''reflections.0.reflection''),
                             (''message'', Str ''Reflection content is required'')])])])
       None =
       Inr \<lparr>status = Num 400,
            body = Obj [(''success'', Bool False),
                        (''error'', Obj [(''code'', Str ''VALIDATION_ERROR''),
                                         (''message'',
                                            (if fieldErrors = [] then Str ''Validation failed''
                                             else hd (Object_values fieldErrors))),
                                         (''fields'', Obj fieldErrors)])]\<rparr> \<and>
     length fieldErrors = 2 \<and>
     lookup (Obj fieldErrors) ''content'' = Str ''Letter content is required'' \<and>
     lookup (Obj fieldErrors) ''reflection'' = Str ''Reflection content is required''"
proof -
  let ?e1 = "Obj [(''path'', Str ''content''), (''message'', Str ''Letter content is required'')]"
  let ?e2 = "Obj [(''path'', Str ''reflections.0.reflection''),
                  (''message'', Str ''Reflection content is required'')]"
  let ?es = "[(''content'', ?e1), (''reflections.0.reflection'', ?e2)]"
  let ?E = "Obj [(''name'', Str ''ValidationError''), (''errors'', Obj ?es)]"
  have h: "lookup ?E ''name'' = Str ''ValidationError''" "lookup ?E ''errors'' = Obj ?es"
    "distinct (map fst ?es)" "list_all is_field_error (map snd ?es)"
    by code_simp+
  have leaves: "leaf_of ?e1 = ''content''" "leaf_of ?e2 = ''reflection''"
    by code_simp+
  have i: "distinct (map (leaf_of \<circ> snd) ?es) \<and> ''__proto__'' \<notin> set (map (leaf_of \<circ> snd) ?es)"
    by (simp add: leaves)
  from storage_validation_response [OF h, of None] obtain fe where
    r: "errorHandler ?E None =
       Inr \<lparr>status = Num 400,
            body = Obj [(''success'', Bool False),
                        (''error'', Obj [(''code'', Str ''VALIDATION_ERROR''),
                                         (''message'',
                                            (if fe = [] then Str ''Validation failed''
                                             else hd (Object_values fe))),
                                         (''fields'', Obj fe)])]\<rparr>"
    and l: "distinct (map (leaf_of \<circ> snd) ?es) \<and>
        ''__proto__'' \<notin> set (map (leaf_of \<circ> snd) ?es) \<longrightarrow>
        length fe = length ?es \<and>
        (\<forall>e \<in> set (map snd ?es). lookup (Obj fe) (leaf_of e) = lookup e ''message'')"
    by blast
  from l i have "length fe = 2"
    and "lookup (Obj fe) (leaf_of ?e1) = lookup ?e1 ''message''"
    and "lookup (Obj fe) (leaf_of ?e2) = lookup ?e2 ''message''"
    by simp_all
  then have "length fe = 2"
    and "lookup (Obj fe) ''content'' = Str ''Letter content is required''"
    and "lookup (Obj fe) ''reflection'' = Str ''Reflection content is required''"
    unfolding leaves by simp_all
  with r show ?thesis
    by (intro exI [of _ fe] conjI)
qed

subsection \<open>The pairs of code and status\<close>

text \<open>
  C4, as the claim states it: every failure yields one of eight pairs of code and
  status. An instance of the base class \<^verbatim>\<open>AppError\<close> has no code, and the handler passes
  its status on: it answers \<^verbatim>\<open>ERROR\<close> with status 418 here.
\<close>

theorem base_class_code_status:
  "errorHandler (Obj (AppError ''Short and stout'' (Some 418) ''at brew'')) None =
     Inr \<lparr>status = Num 418,
          body = Obj [(''success'', Bool False),
                      (''error'', Obj [(''code'', Str ''ERROR''),
                                       (''message'', Str ''Short and stout'')])]\<rparr> \<and>
   (code_of \<lparr>status = Num 418,
             body = Obj [(''success'', Bool False),
                         (''error'', Obj [(''code'', Str ''ERROR''),
                                          (''message'', Str ''Short and stout'')])]\<rparr>,
    Num 418) \<notin>
     {(Str ''VALIDATION_ERROR'', Num 400), (Str ''INVALID_ID'', Num 400),
      (Str ''DUPLICATE_ERROR'', Num 400), (Str ''NOT_FOUND'', Num 404),
      (Str ''UNAUTHORIZED'', Num 401), (Str ''FORBIDDEN'', Num 403),
      (Str ''AI_SERVICE_ERROR'', Num 503), (Str ''INTERNAL_ERROR'', Num 500)}"
  by (simp add: errorHandler_def operationalResponse_def AppError_def code_of_def error_of_def)

text \<open>
  C4, amended. Every response of the handler carries one of the four pairs
  \<^verbatim>\<open>VALIDATION_ERROR\<close>/400, \<^verbatim>\<open>INVALID_ID\<close>/400, \<^verbatim>\<open>DUPLICATE_ERROR\<close>/400 and
  \<^verbatim>\<open>INTERNAL_ERROR\<close>/500, or else the failure is operational and the response carries the
  failure's own code (\<^verbatim>\<open>ERROR\<close> when it has none) and its own status code. For the
  instances of the five classes of the taxonomy these are \<^verbatim>\<open>VALIDATION_ERROR\<close>/400,
  \<^verbatim>\<open>NOT_FOUND\<close>/404, \<^verbatim>\<open>UNAUTHORIZED\<close>/401, \<^verbatim>\<open>FORBIDDEN\<close>/403 and
  \<^verbatim>\<open>AI_SERVICE_ERROR\<close>/503, and every failure that no test recognises is answered with
  \<^verbatim>\<open>INTERNAL_ERROR\<close>/500.
\<close>

theorem code_status_pairs:
  "(\<forall>r. errorHandler error NODE_ENV = Inr r \<longrightarrow>
      code_of r = Str ''VALIDATION_ERROR'' \<and> status r = Num 400 \<or>
      code_of r = Str ''INVALID_ID'' \<and> status r = Num 400 \<or>
      code_of r = Str ''DUPLICATE_ERROR'' \<and> status r = Num 400 \<or>
      code_of r = Str ''INTERNAL_ERROR'' \<and> status r = Num 500 \<or>
      isOperational error \<and>
      code_of r = (if truthy (lookup error ''code'') then lookup error ''code'' else Str ''ERROR'') \<and>
      status r = lookup error ''statusCode'') \<and>
   (\<exists>r. errorHandler (ValidationError msg fieldErrors trace) NODE_ENV = Inr r \<and>
      code_of r = Str ''VALIDATION_ERROR'' \<and> status r = Num 400) \<and>
   (\<exists>r. errorHandler (NotFoundError optmsg trace) NODE_ENV = Inr r \<and>
      code_of r = Str ''NOT_FOUND'' \<and> status r = Num 404) \<and>
   (\<exists>r. errorHandler (UnauthorizedError optmsg trace) NODE_ENV = Inr r \<and>
      code_of r = Str ''UNAUTHORIZED'' \<and> status r = Num 401) \<and>
   (\<exists>r. errorHandler (ForbiddenError optmsg trace) NODE_ENV = Inr r \<and>
      code_of r = Str ''FORBIDDEN'' \<and> status r = Num 403) \<and>
   (\<exists>r. errorHandler (AIServiceError optmsg originalError trace) NODE_ENV = Inr r \<and>
      code_of r = Str ''AI_SERVICE_ERROR'' \<and> status r = Num 503) \<and>
   (unclassified error \<longrightarrow>
      (\<exists>r. errorHandler error NODE_ENV = Inr r \<and>
         code_of r = Str ''INTERNAL_ERROR'' \<and> status r = Num 500))"
proof -
  have 1: "code_of r = Str ''VALIDATION_ERROR'' \<and> status r = Num 400 \<or>
      code_of r = Str ''INVALID_ID'' \<and> status r = Num 400 \<or>
      code_of r = Str ''DUPLICATE_ERROR'' \<and> status r = Num 400 \<or>
      code_of r = Str ''INTERNAL_ERROR'' \<and> status r = Num 500 \<or>
      isOperational error \<and>
      code_of r = (if truthy (lookup error ''code'') then lookup error ''code'' else Str ''ERROR'') \<and>
      status r = lookup error ''statusCode''"
    if r: "errorHandler error NODE_ENV = Inr r" for r
  proof -
    have n: "\<not> nullish error"
      using r by (auto simp add: errorHandler_def)
    note h = r [unfolded errorHandler_branches [OF n]]
    show ?thesis
      using h validationResponse_code [of error r] castResponse_code [of r]
        duplicateResponse_code [of error r] operationalResponse_code [of error r]
        internalResponse_code [of error _ r]
      by (auto split: if_splits)
  qed
  have 2: "\<exists>r. errorHandler (ValidationError msg fieldErrors trace) NODE_ENV = Inr r \<and>
      code_of r = Str ''VALIDATION_ERROR'' \<and> status r = Num 400"
    unfolding ValidationError_def by (rule taxonomy_instance) simp_all
  have 3: "\<exists>r. errorHandler (NotFoundError optmsg trace) NODE_ENV = Inr r \<and>
      code_of r = Str ''NOT_FOUND'' \<and> status r = Num 404"
    unfolding NotFoundError_def by (rule taxonomy_instance) simp_all
  have 4: "\<exists>r. errorHandler (UnauthorizedError optmsg trace) NODE_ENV = Inr r \<and>
      code_of r = Str ''UNAUTHORIZED'' \<and> status r = Num 401"
    unfolding UnauthorizedError_def by (rule taxonomy_instance) simp_all
  have 5: "\<exists>r. errorHandler (ForbiddenError optmsg trace) NODE_ENV = Inr r \<and>
      code_of r = Str ''FORBIDDEN'' \<and> status r = Num 403"
    unfolding ForbiddenError_def by (rule taxonomy_instance) simp_all
  have 6: "\<exists>r. errorHandler (AIServiceError optmsg originalError trace) NODE_ENV = Inr r \<and>
      code_of r = Str ''AI_SERVICE_ERROR'' \<and> status r = Num 503"
    unfolding AIServiceError_def Let_def by (rule taxonomy_instance) simp_all
  have 7: "\<exists>r. errorHandler error NODE_ENV = Inr r \<and>
         code_of r = Str ''INTERNAL_ERROR'' \<and> status r = Num 500" if "unclassified error"
    using that
    by (simp add: errorHandler_unclassified internalResponse_def code_of_def error_of_def)
  show ?thesis
    using 1 2 3 4 5 6 7 by blast
qed

theorem code_status_pairs_witness:
  "unclassified (Obj [(''name'', Str ''Error''), (''message'', Str ''boom'')]) \<and>
   (\<exists>r. errorHandler (Obj [(''name'', Str ''Error''), (''message'', Str ''boom'')]) None = Inr r \<and>
      code_of r = Str ''INTERNAL_ERROR'' \<and> status r = Num 500) \<and>
   (\<exists>r. errorHandler (NotFoundError None ''at find'') None = Inr r \<and>
      code_of r = Str ''NOT_FOUND'' \<and> status r = Num 404)"
proof -
  let ?E = "Obj [(''name'', Str ''Error''), (''message'', Str ''boom'')]"
  have u: "unclassified ?E"
    by code_simp
  from code_status_pairs [of ?E None "''bad''" None "''at find''" None None] u show ?thesis
    by blast
qed

subsection \<open>Unclassified failures\<close>

text \<open>
  C6. For failures that no test of the handler recognises: outside development mode
  the response is one fixed value, with status 500, the message
  \<^verbatim>\<open>An unexpected error occurred\<close> and no stack, so two such failures get the same
  response whatever their messages and stacks are; in development mode the response, of
  status 500 too, carries the failure's message and stack.
\<close>

theorem unclassified_response:
  assumes "unclassified e1" and "unclassified e2" and "NODE_ENV \<noteq> Some ''development''"
  shows "errorHandler e1 NODE_ENV =
           Inr \<lparr>status = Num 500,
                body = Obj [(''success'', Bool False),
                            (''error'', Obj [(''code'', Str ''INTERNAL_ERROR''),
                                             (''message'', Str ''An unexpected error occurred'')])]\<rparr> \<and>
         errorHandler e2 NODE_ENV = errorHandler e1 NODE_ENV \<and>
         errorHandler e1 (Some ''development'') =
           Inr \<lparr>status = Num 500,
                body = Obj [(''success'', Bool False),
                            (''error'', Obj [(''code'', Str ''INTERNAL_ERROR''),
                                             (''message'', lookup e1 ''message''),
                                             (''stack'', lookup e1 ''stack'')])]\<rparr>"
  using assms by (simp add: errorHandler_unclassified internalResponse_def)

theorem unclassified_response_witness:
  "unclassified (Obj [(''name'', Str ''Error''), (''message'', Str ''boom''), (''stack'', Str ''at f'')]) \<and>
   unclassified (Obj [(''name'', Str ''TypeError''), (''message'', Str ''x is undefined''), (''stack'', Str ''at g'')]) \<and>
   errorHandler (Obj [(''name'', Str ''Error''), (''message'', Str ''boom''), (''stack'', Str ''at f'')])
       (Some ''production'') =
     Inr \<lparr>status = Num 500,
          body = Obj [(''success'', Bool False),
                      (''error'', Obj [(''code'', Str ''INTERNAL_ERROR''),
                                       (''message'', Str ''An unexpected error occurred'')])]\<rparr> \<and>
   errorHandler (Obj [(''name'', Str ''TypeError''), (''message'', Str ''x is undefined''), (''stack'', Str ''at g'')])
       (Some ''production'') =
     errorHandler (Obj [(''name'', Str ''Error''), (''message'', Str ''boom''), (''stack'', Str ''at f'')])
       (Some ''production'') \<and>
   errorHandler (Obj [(''name'', Str ''Error''), (''message'', Str ''boom''), (''stack'', Str ''at f'')])
       (Some ''development'') =
     Inr \<lparr>status = Num 500,
          body = Obj [(''success'', Bool False),
                      (''error'', Obj [(''code'', Str ''INTERNAL_ERROR''),
                                       (''message'', Str ''boom''),
                                       (''stack'', Str ''at f'')])]\<rparr>"
  using unclassified_response
    [of "Obj [(''name'', Str ''Error''), (''message'', Str ''boom''), (''stack'', Str ''at f'')]"
        "Obj [(''name'', Str ''TypeError''), (''message'', Str ''x is undefined''), (''stack'', Str ''at g'')]"
        "Some ''production''"]
  by (simp add: unclassified_def test_defs)

subsection \<open>The order of the tests\<close>

text \<open>
  C7. The handler tries the shapes in a fixed order and the first match decides: a
  storage validation failure is answered as such whatever else it matches; a cast failure
  that is no validation failure is answered with \<^verbatim>\<open>INVALID_ID\<close>; a failure with code 11000
  that is neither is answered by the duplicate key branch; an operational failure that is
  none of the three has its code (\<^verbatim>\<open>ERROR\<close> when it has none), message and status code
  passed on, with its fields when it has them; every other failure is answered as an
  internal error.
\<close>

theorem errorHandler_first_match:
  assumes "\<not> nullish error"
  shows
    "(isStorageValidation error \<longrightarrow>
        errorHandler error NODE_ENV = validationResponse error \<and>
        (\<forall>r. errorHandler error NODE_ENV = Inr r \<longrightarrow>
           code_of r = Str ''VALIDATION_ERROR'' \<and> status r = Num 400)) \<and>
     (\<not> isStorageValidation error \<and> isStorageCast error \<longrightarrow>
        errorHandler error NODE_ENV =
          Inr \<lparr>status = Num 400,
               body = Obj [(''success'', Bool False),
                           (''error'', Obj [(''code'', Str ''INVALID_ID''),
                                            (''message'', Str ''Invalid ID format'')])]\<rparr>) \<and>
     (\<not> isStorageValidation error \<and> \<not> isStorageCast error \<and> isDuplicateKey error \<longrightarrow>
        errorHandler error NODE_ENV = duplicateResponse error \<and>
        (\<forall>r. errorHandler error NODE_ENV = Inr r \<longrightarrow>
           code_of r = Str ''DUPLICATE_ERROR'' \<and> status r = Num 400)) \<and>
     (\<not> isStorageValidation error \<and> \<not> isStorageCast error \<and> \<not> isDuplicateKey error \<and>
      isOperational error \<longrightarrow>
        errorHandler error NODE_ENV =
          Inr \<lparr>status = lookup error ''statusCode'',
               body = Obj [(''success'', Bool False),
                           (''error'',
                              Obj ([(''code'', (if truthy (lookup error ''code'')
                                                then lookup error ''code'' else Str ''ERROR'')),
                                    (''message'', lookup error ''message'')] @
                                   (if truthy (lookup error ''fields'')
                                    then [(''fields'', lookup error ''fields'')] else [])))]\<rparr>) \<and>
     (\<not> isStorageValidation error \<and> \<not> isStorageCast error \<and> \<not> isDuplicateKey error \<and>
      \<not> isOperational error \<longrightarrow>
        errorHandler error NODE_ENV = internalResponse error (NODE_ENV = Some ''development'') \<and>
        (\<forall>r. errorHandler error NODE_ENV = Inr r \<longrightarrow>
           code_of r = Str ''INTERNAL_ERROR'' \<and> status r = Num 500))"
  unfolding errorHandler_branches [OF assms]
  using validationResponse_code [of error] duplicateResponse_code [of error]
    internalResponse_code [of error]
  by (simp add: castResponse_def operationalResponse_def)

theorem errorHandler_first_match_witness:
  "errorHandler (Obj [(''name'', Str ''ValidationError''), (''errors'', Obj []),
                      (''code'', Num 11000), (''isOperational'', Bool True)]) None =
     validationResponse (Obj [(''name'', Str ''ValidationError''), (''errors'', Obj []),
                              (''code'', Num 11000), (''isOperational'', Bool True)]) \<and>
   errorHandler (Obj [(''name'', Str ''CastError''), (''code'', Num 11000),
                      (''isOperational'', Bool True)]) None =
     Inr \<lparr>status = Num 400,
          body = Obj [(''success'', Bool False),
                      (''error'', Obj [(''code'', Str ''INVALID_ID''),
                                       (''message'', Str ''Invalid ID format'')])]\<rparr> \<and>
   errorHandler (Obj [(''name'', Str ''MongoServerError''), (''code'', Num 11000),
                      (''keyValue'', Obj [(''email'', Str ''me@example.com'')]),
                      (''isOperational'', Bool True), (''statusCode'', Num 409)]) None =
     duplicateResponse (Obj [(''name'', Str ''MongoServerError''), (''code'', Num 11000),
                      (''keyValue'', Obj [(''email'', Str ''me@example.com'')]),
                      (''isOperational'', Bool True), (''statusCode'', Num 409)]) \<and>
   errorHandler (Obj [(''name'', Str ''Error''), (''message'', Str ''Gone''),
                      (''statusCode'', Num 410), (''isOperational'', Bool True)]) None =
     Inr \<lparr>status = Num 410,
          body = Obj [(''success'', Bool False),
                      (''error'', Obj [(''code'', Str ''ERROR''), (''message'', Str ''Gone'')])]\<rparr> \<and>
   errorHandler (Obj [(''name'', Str ''Error''), (''message'', Str ''boom''),
                      (''code'', Str ''E_FAIL'')]) None =
     internalResponse (Obj [(''name'', Str ''Error''), (''message'', Str ''boom''),
                      (''code'', Str ''E_FAIL'')]) False"
proof -
  let ?E1 = "Obj [(''name'', Str ''ValidationError''), (''errors'', Obj []),
                  (''code'', Num 11000), (''isOperational'', Bool True)]"
  let ?E2 = "Obj [(''name'', Str ''CastError''), (''code'', Num 11000),
                  (''isOperational'', Bool True)]"
  let ?E3 = "Obj [(''name'', Str ''MongoServerError''), (''code'', Num 11000),
                  (''keyValue'', Obj [(''email'', Str ''me@example.com'')]),
                  (''isOperational'', Bool True), (''statusCode'', Num 409)]"
  let ?E4 = "Obj [(''name'', Str ''Error''), (''message'', Str ''Gone''),
                  (''statusCode'', Num 410), (''isOperational'', Bool True)]"
  let ?E5 = "Obj [(''name'', Str ''Error''), (''message'', Str ''boom''),
                  (''code'', Str ''E_FAIL'')]"
  have 1: "\<not> nullish ?E1" "isStorageValidation ?E1" "isDuplicateKey ?E1" "isOperational ?E1"
    by (simp_all add: test_defs)
  have 2: "\<not> nullish ?E2" "\<not> isStorageValidation ?E2" "isStorageCast ?E2" "isDuplicateKey ?E2"
    "isOperational ?E2"
    by (simp_all add: test_defs)
  have 3: "\<not> nullish ?E3" "\<not> isStorageValidation ?E3" "\<not> isStorageCast ?E3" "isDuplicateKey ?E3"
    "isOperational ?E3"
    by (simp_all add: test_defs)
  have 4: "\<not> nullish ?E4" "\<not> isStorageValidation ?E4" "\<not> isStorageCast ?E4"
    "\<not> isDuplicateKey ?E4" "isOperational ?E4"
    "lookup ?E4 ''statusCode'' = Num 410" "lookup ?E4 ''code'' = Undefined"
    "lookup ?E4 ''message'' = Str ''Gone''" "lookup ?E4 ''fields'' = Undefined"
    by (simp_all add: test_defs)
  have 5: "\<not> nullish ?E5" "\<not> isStorageValidation ?E5" "\<not> isStorageCast ?E5"
    "\<not> isDuplicateKey ?E5" "\<not> isOperational ?E5"
    by (simp_all add: test_defs)
  from errorHandler_first_match [OF 1(1), of None] 1
  have "errorHandler ?E1 None = validationResponse ?E1" by blast
  moreover from errorHandler_first_match [OF 2(1), of None] 2
  have "errorHandler ?E2 None =
     Inr \<lparr>status = Num 400,
          body = Obj [(''success'', Bool False),
                      (''error'', Obj [(''code'', Str ''INVALID_ID''),
                                       (''message'', Str ''Invalid ID format'')])]\<rparr>" by blast
  moreover from errorHandler_first_match [OF 3(1), of None] 3
  have "errorHandler ?E3 None = duplicateResponse ?E3" by blast
  moreover from errorHandler_first_match [OF 4(1), of None] 4(2-5)
  have "errorHandler ?E4 None = Inr \<lparr>status = lookup ?E4 ''statusCode'',
               body = Obj [(''success'', Bool False),
                           (''error'',
                              Obj ([(''code'', (if truthy (lookup ?E4 ''code'')
                                                then lookup ?E4 ''code'' else Str ''ERROR'')),
                                    (''message'', lookup ?E4 ''message'')] @
                                   (if truthy (lookup ?E4 ''fields'')
                                    then [(''fields'', lookup ?E4 ''fields'')] else [])))]\<rparr>"
    by blast
  then have "errorHandler ?E4 None =
     Inr \<lparr>status = Num 410,
          body = Obj [(''success'', Bool False),
                      (''error'', Obj [(''code'', Str ''ERROR''), (''message'', Str ''Gone'')])]\<rparr>"
    unfolding 4(6-9) by simp
  moreover from errorHandler_first_match [OF 5(1), of None] 5
  have "errorHandler ?E5 None = internalResponse ?E5 (None = Some ''development'')" by blast
  then have "errorHandler ?E5 None = internalResponse ?E5 False" by simp
  ultimately show ?thesis by blast
qed

subsection \<open>Duplicate keys\<close>

text \<open>
  C8. A duplicate key failure (code 11000, and neither of the two storage shapes
  tested before) whose conflicting key set has the first key \<open>f\<close> is answered with
  status 400, code \<^verbatim>\<open>DUPLICATE_ERROR\<close>, the message \<^verbatim>\<open>A record with this f already exists\<close>
  and the single field \<open>f\<close> with \<^verbatim>\<open>This f is already in use\<close>; for \<^verbatim>\<open>email\<close> this is
  the body of the specification.
\<close>

theorem duplicate_key_response:
  assumes "\<not> isStorageValidation error" and "\<not> isStorageCast error" and "isDuplicateKey error"
    and "Object_keys (lookup error ''keyValue'') = Inr (f # fs)"
  shows "errorHandler error NODE_ENV =
           Inr \<lparr>status = Num 400,
                body = Obj [(''success'', Bool False),
                            (''error'', Obj [(''code'', Str ''DUPLICATE_ERROR''),
                                             (''message'', Str (''A record with this '' @ f @ '' already exists'')),
                                             (''fields'', Obj [(f, Str (''This '' @ f @ '' is already in use''))])])]\<rparr>"
proof -
  have "\<not> nullish error"
    using assms(3) by (cases error) (simp_all add: isDuplicateKey_def)
  then show ?thesis
    using assms by (simp add: errorHandler_branches duplicateResponse_def)
qed

theorem duplicate_key_response_witness:
  "errorHandler (Obj [(''name'', Str ''MongoServerError''), (''code'', Num 11000),
                      (''keyValue'', Obj [(''email'', Str ''me@example.com'')])]) None =
     Inr \<lparr>status = Num 400,
          body = Obj [(''success'', Bool False),
                      (''error'', Obj [(''code'', Str ''DUPLICATE_ERROR''),
                                       (''message'', Str ''A record with this email already exists''),
                                       (''fields'', Obj [(''email'', Str ''This email is already in use'')])])]\<rparr>"
  using duplicate_key_response
    [of "Obj [(''name'', Str ''MongoServerError''), (''code'', Num 11000),
              (''keyValue'', Obj [(''email'', Str ''me@example.com'')])]" "''email''" "[]" None]
  by (simp add: test_defs ordered_keys_def is_array_index_def is_digit_def)

text \<open>
  C10. The handler is partial on the duplicate key branch: when a failure with code
  11000 has no \<^verbatim>\<open>keyValue\<close> (or a \<^verbatim>\<open>null\<close> one), \<^verbatim>\<open>Object.keys\<close> throws a TypeError and
  the handler produces no response; with a non-empty \<^verbatim>\<open>keyValue\<close> object it produces
  one. It produces a response exactly when \<^verbatim>\<open>keyValue\<close> is neither \<^verbatim>\<open>undefined\<close> nor
  \<^verbatim>\<open>null\<close>.
\<close>

theorem duplicate_branch_partial:
  assumes "\<not> isStorageValidation error" and "\<not> isStorageCast error" and "isDuplicateKey error"
  shows "(nullish (lookup error ''keyValue'') \<longrightarrow> errorHandler error NODE_ENV = Inl TypeError) \<and>
         (\<forall>kvs. lookup error ''keyValue'' = Obj kvs \<and> kvs \<noteq> [] \<longrightarrow>
            (\<exists>r. errorHandler error NODE_ENV = Inr r)) \<and>
         ((\<exists>r. errorHandler error NODE_ENV = Inr r) = (\<not> nullish (lookup error ''keyValue'')))"
proof -
  have n: "\<not> nullish error"
    using assms(3) by (cases error) (simp_all add: isDuplicateKey_def)
  have e: "errorHandler error NODE_ENV = duplicateResponse error"
    using assms by (simp add: errorHandler_branches [OF n])
  have "duplicateResponse error = Inl TypeError" if "nullish (lookup error ''keyValue'')"
    using that by (cases "lookup error ''keyValue''") (simp_all add: duplicateResponse_def)
  moreover have "\<exists>r. duplicateResponse error = Inr r" if "\<not> nullish (lookup error ''keyValue'')"
    using that by (cases "lookup error ''keyValue''") (simp_all add: duplicateResponse_def Let_def)
  ultimately show ?thesis
    unfolding e by force
qed

theorem duplicate_branch_partial_witness:
  "errorHandler (Obj [(''name'', Str ''MongoServerError''), (''code'', Num 11000)]) None =
     Inl TypeError \<and>
   (\<exists>r. errorHandler (Obj [(''name'', Str ''MongoServerError''), (''code'', Num 11000),
                            (''keyValue'', Obj [(''email'', Str ''me@example.com'')])]) None = Inr r)"
proof -
  let ?A = "Obj [(''name'', Str ''MongoServerError''), (''code'', Num 11000)]"
  let ?B = "Obj [(''name'', Str ''MongoServerError''), (''code'', Num 11000),
                 (''keyValue'', Obj [(''email'', Str ''me@example.com'')])]"
  have a: "\<not> isStorageValidation ?A" "\<not> isStorageCast ?A" "isDuplicateKey ?A"
    and na: "nullish (lookup ?A ''keyValue'')"
    by (simp_all add: test_defs)
  have b: "\<not> isStorageValidation ?B" "\<not> isStorageCast ?B" "isDuplicateKey ?B"
    and kb: "lookup ?B ''keyValue'' = Obj [(''email'', Str ''me@example.com'')] \<and>
      [(''email'', Str ''me@example.com'')] \<noteq> []"
    by (simp_all add: test_defs)
  from duplicate_branch_partial [OF a, of None] na
  have "errorHandler ?A None = Inl TypeError" by blast
  moreover from duplicate_branch_partial [OF b, of None] kb
  have "\<exists>r. errorHandler ?B None = Inr r" by blast
  ultimately show ?thesis by blast
qed

subsection \<open>The shape of a response\<close>

text \<open>
  C9. In every response of the handler, in every mode, \<^verbatim>\<open>success\<close> is \<^verbatim>\<open>false\<close>; the
  error part has a \<^verbatim>\<open>stack\<close> exactly in development mode on the internal error branch;
  and it has \<^verbatim>\<open>fields\<close> exactly when the failure is answered as a storage validation
  failure, as a duplicate key failure, or as an operational failure that carries
  fields.
\<close>

theorem response_shape:
  assumes "errorHandler error NODE_ENV = Inr r"
  shows "lookup (body r) ''success'' = Bool False \<and>
     has_own (error_of r) ''stack'' =
       (NODE_ENV = Some ''development'' \<and> \<not> isStorageValidation error \<and> \<not> isStorageCast error \<and>
        \<not> isDuplicateKey error \<and> \<not> isOperational error) \<and>
     has_own (error_of r) ''fields'' =
       (isStorageValidation error \<or>
        (\<not> isStorageCast error \<and>
         (isDuplicateKey error \<or> (isOperational error \<and> truthy (lookup error ''fields'')))))"
proof -
  have n: "\<not> nullish error"
    using assms by (auto simp add: errorHandler_def)
  note h = assms [unfolded errorHandler_branches [OF n]]
  consider (validation) "isStorageValidation error"
    | (cast) "\<not> isStorageValidation error" "isStorageCast error"
    | (duplicate) "\<not> isStorageValidation error" "\<not> isStorageCast error" "isDuplicateKey error"
    | (operational) "\<not> isStorageValidation error" "\<not> isStorageCast error"
        "\<not> isDuplicateKey error" "isOperational error"
    | (internal) "\<not> isStorageValidation error" "\<not> isStorageCast error"
        "\<not> isDuplicateKey error" "\<not> isOperational error"
    by blast
  then show ?thesis
  proof cases
    case validation
    with h have "validationResponse error = Inr r" by simp
    then show ?thesis
      using validation by (auto dest!: validationResponse_Inr simp add: error_of_def has_own_Obj)
  next
    case cast
    with h have "castResponse = Inr r" by simp
    then show ?thesis
      using cast by (auto simp add: castResponse_def error_of_def has_own_Obj)
  next
    case duplicate
    with h have "duplicateResponse error = Inr r" by simp
    then show ?thesis
      using duplicate by (auto dest!: duplicateResponse_Inr simp add: error_of_def has_own_Obj)
  next
    case operational
    with h have "operationalResponse error = Inr r" by simp
    then show ?thesis
      using operational by (auto simp add: operationalResponse_def error_of_def has_own_Obj)
  next
    case internal
    with h have "internalResponse error (NODE_ENV = Some ''development'') = Inr r" by simp
    then show ?thesis
      using internal by (auto simp add: internalResponse_def error_of_def has_own_Obj)
  qed
qed

theorem response_shape_witness:
  "lookup (Obj [(''success'', Bool False),
                (''error'', Obj [(''code'', Str ''INTERNAL_ERROR''), (''message'', Str ''boom''),
                                 (''stack'', Str ''at f'')])]) ''success'' = Bool False \<and>
   has_own (Obj [(''code'', Str ''INTERNAL_ERROR''), (''message'', Str ''boom''),
                 (''stack'', Str ''at f'')]) ''stack'' \<and>
   \<not> has_own (Obj [(''code'', Str ''INTERNAL_ERROR''), (''message'', Str ''boom''),
                   (''stack'', Str ''at f'')]) ''fields''"
proof -
  let ?E = "Obj [(''name'', Str ''Error''), (''message'', Str ''boom''), (''stack'', Str ''at f'')]"
  let ?R = "\<lparr>status = Num 500,
             body = Obj [(''success'', Bool False),
                         (''error'', Obj [(''code'', Str ''INTERNAL_ERROR''),
                                          (''message'', Str ''boom''),
                                          (''stack'', Str ''at f'')])]\<rparr>"
  have r: "errorHandler ?E (Some ''development'') = Inr ?R"
    by code_simp
  have t: "\<not> isStorageValidation ?E" "\<not> isStorageCast ?E" "\<not> isDuplicateKey ?E"
    "\<not> isOperational ?E"
    by (simp_all add: test_defs)
  have e: "error_of ?R = Obj [(''code'', Str ''INTERNAL_ERROR''), (''message'', Str ''boom''),
                 (''stack'', Str ''at f'')]"
    by (simp add: error_of_def)
  from response_shape [OF r] t show ?thesis
    unfolding e by simp
qed

section \<open>Properties of the async handler\<close>

text \<open>
  C5, as the claim states it: a failure thrown by the handler before it returns is
  caught by the wrapper and forwarded once. The wrapper has no handler for exceptions:
  the exception leaves it and nothing is forwarded.
\<close>

theorem sync_throw_escapes:
  "asyncHandler (\<lambda>request response. Throws (Str ''boom'')) () () =
     \<lparr>escaped = Some (Str ''boom''), forwarded = []\<rparr>"
  by (simp add: asyncHandler_def)

text \<open>
  C5, amended. When the promise returned by the handler is rejected, the wrapper
  forwards the reason to \<^verbatim>\<open>next\<close> exactly once and no exception leaves it; when the
  handler throws before it returns, the exception leaves the wrapper and the wrapper
  forwards nothing; in every other case nothing is forwarded.
\<close>

theorem asyncHandler_outcomes:
  "(routeHandler request response = ReturnsPromise (Rejected e) \<longrightarrow>
      asyncHandler routeHandler request response = \<lparr>escaped = None, forwarded = [e]\<rparr>) \<and>
   (routeHandler request response = Throws e \<longrightarrow>
      asyncHandler routeHandler request response = \<lparr>escaped = Some e, forwarded = []\<rparr>) \<and>
   (routeHandler request response = ReturnsPromise (Fulfilled v) \<or>
    routeHandler request response = ReturnsPromise Pending \<or>
    routeHandler request response = Returns v \<longrightarrow>
      asyncHandler routeHandler request response = \<lparr>escaped = None, forwarded = []\<rparr>)"
  by (auto simp add: asyncHandler_def)

theorem asyncHandler_outcomes_witness:
  "asyncHandler (\<lambda>request response. ReturnsPromise (Rejected (Str ''boom''))) () () =
     \<lparr>escaped = None, forwarded = [Str ''boom'']\<rparr> \<and>
   asyncHandler (\<lambda>request response. Throws (Str ''boom'')) () () =
     \<lparr>escaped = Some (Str ''boom''), forwarded = []\<rparr> \<and>
   asyncHandler (\<lambda>request response. Returns (Num 1)) () () =
     \<lparr>escaped = None, forwarded = []\<rparr>"
  using asyncHandler_outcomes
      [of "\<lambda>request response. ReturnsPromise (Rejected (Str ''boom''))" "()" "()" "Str ''boom''" Undefined]
    asyncHandler_outcomes
      [of "\<lambda>request response. Throws (Str ''boom'')" "()" "()" "Str ''boom''" Undefined]
    asyncHandler_outcomes
      [of "\<lambda>request response. Returns (Num 1)" "()" "()" Undefined "Num 1"]
  by simp

end
